theory Spec2Isabelle
  imports Complex_Main "HOL-Library.AList"
begin

section \<open>Glob matcher (packages/core glob.js)\<close>

text \<open>
  JavaScript strings are modelled as \<^typ>\<open>string\<close>: sequences of code units in the
  8-bit range. \<^verbatim>\<open>matchesGlob\<close> translates the pattern into the source text of a regular
  expression and runs \<^verbatim>\<open>new RegExp(regexStr).test(value)\<close>. Only three kinds of regular
  expression items can come out of the translation: an escaped or ordinary character,
  which matches itself; \<^verbatim>\<open>.\<close>, which matches one character that is not a line
  terminator; and \<^verbatim>\<open>.*\<close>, a greedy run of such characters. The expression is
  anchored by \<^verbatim>\<open>^\<close> and \<^verbatim>\<open>$\<close> and built without flags. Such an expression always
  compiles, so the \<^verbatim>\<open>catch\<close> branch of the source is never taken.
\<close>

datatype regex_item = Lit char | AnyChar | AnyStar

text \<open>The switch in the loop of \<^verbatim>\<open>matchesGlob\<close>: one regular expression item per
  pattern character.\<close>

fun glob_item :: "char \<Rightarrow> regex_item" where
  "glob_item c =
     (if c = CHR ''*'' then AnyStar
      else if c = CHR ''?'' then AnyChar
      else Lit c)"

text \<open>The line terminators of ECMAScript that fit in 8 bits: LF and CR. The dot of a
  regular expression without the \<^verbatim>\<open>s\<close> flag does not match them.\<close>

definition line_terminator :: "char \<Rightarrow> bool" where
  "line_terminator c \<longleftrightarrow> c = CHR 0x0A \<or> c = CHR 0x0D"

text \<open>\<^verbatim>\<open>RegExp.prototype.test\<close> for an anchored sequence of items: the whole value
  has to be consumed.\<close>

fun regex_test :: "regex_item list \<Rightarrow> string \<Rightarrow> bool" where
  "regex_test [] s = (s = [])"
| "regex_test (Lit c # r) s =
     (case s of [] \<Rightarrow> False | x # xs \<Rightarrow> x = c \<and> regex_test r xs)"
| "regex_test (AnyChar # r) s =
     (case s of [] \<Rightarrow> False | x # xs \<Rightarrow> \<not> line_terminator x \<and> regex_test r xs)"
| "regex_test (AnyStar # r) s =
     (regex_test r s \<or>
      (case s of [] \<Rightarrow> False
       | x # xs \<Rightarrow> \<not> line_terminator x \<and> regex_test (AnyStar # r) xs))"

definition matchesGlob :: "string \<Rightarrow> string \<Rightarrow> bool" where
  "matchesGlob v pattern =
     (if pattern = v then True
      else if pattern = ''*'' then True
      else regex_test (map glob_item pattern) v)"

text \<open>The semantics the documentation of the matcher gives: \<^verbatim>\<open>*\<close> stands for any
  run of characters, \<^verbatim>\<open>?\<close> for any single character, everything else for itself.\<close>

fun glob_spec :: "string \<Rightarrow> string \<Rightarrow> bool" where
  "glob_spec [] s = (s = [])"
| "glob_spec (p # ps) s =
     (if p = CHR ''*'' then
        (glob_spec ps s \<or> (case s of [] \<Rightarrow> False | x # xs \<Rightarrow> glob_spec (p # ps) xs))
      else if p = CHR ''?'' then
        (case s of [] \<Rightarrow> False | x # xs \<Rightarrow> glob_spec ps xs)
      else
        (case s of [] \<Rightarrow> False | x # xs \<Rightarrow> x = p \<and> glob_spec ps xs))"

section \<open>Properties of the glob matcher\<close>

lemma matchesGlob_refl: "matchesGlob s s"
  by (simp add: matchesGlob_def)

lemma matchesGlob_star: "matchesGlob s ''*''"
  by (simp add: matchesGlob_def)

lemma regex_test_glob_spec:
  "\<forall>c \<in> set s. \<not> line_terminator c \<Longrightarrow> regex_test (map glob_item p) s = glob_spec p s"
proof (induction p s rule: glob_spec.induct)
  case (1 s)
  then show ?case by simp
next
  case (2 p ps s)
  then show ?case
    by (cases s) auto
qed

text \<open>
  C9. The matcher is documented to let \<^verbatim>\<open>*\<close> match any characters. The value
  \<^verbatim>\<open>a<LF>b\<close> is a run of characters after \<^verbatim>\<open>a\<close>, so it should match the pattern
  \<^verbatim>\<open>a*\<close>; the regular expression built by the code rejects it, because its dot
  does not match a line feed.
\<close>

theorem matchesGlob_line_feed:
  "matchesGlob [CHR ''a'', CHR 0x0A, CHR ''b''] ''a*'' = False
   \<and> glob_spec ''a*'' [CHR ''a'', CHR 0x0A, CHR ''b''] = True"
  by (simp add: matchesGlob_def line_terminator_def)

section \<open>Dates (the \<^verbatim>\<open>Date\<close> built-in the Policy Engine uses)\<close>

text \<open>
  A \<^verbatim>\<open>Date\<close> is modelled by its time value, an integer number of milliseconds since
  1 January 1970 UTC; the invalid date is not a value of the model. The functions below
  are those of the ECMAScript specification of \<^verbatim>\<open>Date\<close> (section "Time Values and
  Time Range" and the following ones), with its names. Division and remainder of
  \<^typ>\<open>int\<close> round down, as \<^verbatim>\<open>floor\<close> and \<^verbatim>\<open>modulo\<close> do there.
\<close>

definition msPerDay :: int where "msPerDay = 86400000"

definition Day :: "int \<Rightarrow> int" where
  "Day t = t div msPerDay"

definition DaysInYear :: "int \<Rightarrow> int" where
  "DaysInYear y =
     (if y mod 4 \<noteq> 0 then 365
      else if y mod 100 \<noteq> 0 then 366
      else if y mod 400 \<noteq> 0 then 365
      else 366)"

definition DayFromYear :: "int \<Rightarrow> int" where
  "DayFromYear y =
     365 * (y - 1970) + (y - 1969) div 4 - (y - 1901) div 100 + (y - 1601) div 400"

text \<open>
  ECMAScript defines \<^verbatim>\<open>YearFromTime(t)\<close> as the largest year \<open>y\<close> with
  \<^verbatim>\<open>DayFromYear(y)\<close> at most the day of \<open>t\<close>. The search \<open>year_adjust\<close> starts at an
  estimate of the year and moves down or up until the day lies within the year; it
  terminates because every year has at least 365 days.
\<close>

definition year_measure :: "int \<times> int \<Rightarrow> nat" where
  "year_measure =
     (\<lambda>(y, d). if d < DayFromYear y then nat (DayFromYear y - d)
               else nat (d - DayFromYear (y + 1) + 1))"

lemma div_step:
  fixes a k :: int
  assumes "1 < k"
  shows "(a + 1) div k = a div k + (if (a + 1) mod k = 0 then 1 else 0)"
proof -
  have r: "0 \<le> a mod k" "a mod k < k"
    using assms by simp_all
  have k1: "1 div k = 0" "1 mod k = 1"
    using assms by simp_all
  have e: "(a + 1) div k = a div k + (a mod k + 1) div k"
    using div_add1_eq [of a 1 k] k1 by simp
  have m: "(a + 1) mod k = (a mod k + 1) mod k"
    using mod_add_left_eq [of a k 1] by simp
  show ?thesis
  proof (cases "a mod k + 1 = k")
    case True
    then show ?thesis using e m assms by simp
  next
    case False
    with r have lt: "a mod k + 1 < k" by simp
    have "(a mod k + 1) div k = 0"
      using r lt by (intro div_pos_pos_trivial) simp_all
    moreover have "(a mod k + 1) mod k = a mod k + 1"
      using r lt by (intro mod_pos_pos_trivial) simp_all
    ultimately show ?thesis using e m r by simp
  qed
qed

lemma mod4_shift: "(y - 1968) mod 4 = y mod 4" for y :: int
  by algebra

lemma mod100_shift: "(y - 1900) mod 100 = y mod 100" for y :: int
  by algebra

lemma mod400_shift: "(y - 1600) mod 400 = y mod 400" for y :: int
  by algebra

lemma mod_100_4: "y mod 100 = 0 \<Longrightarrow> y mod 4 = 0" for y :: int
  by auto

lemma mod_400_100: "y mod 400 = 0 \<Longrightarrow> y mod 100 = 0" for y :: int
  by auto

lemma DayFromYear_Suc: "DayFromYear (y + 1) = DayFromYear y + DaysInYear y"
proof -
  have a: "(y + 1 - 1969) div 4 = (y - 1969) div 4 + (if y mod 4 = 0 then 1 else 0)"
    using div_step [of 4 "y - 1969"] mod4_shift [of y] by simp
  have b: "(y + 1 - 1901) div 100 = (y - 1901) div 100 + (if y mod 100 = 0 then 1 else 0)"
    using div_step [of 100 "y - 1901"] mod100_shift [of y] by simp
  have c: "(y + 1 - 1601) div 400 = (y - 1601) div 400 + (if y mod 400 = 0 then 1 else 0)"
    using div_step [of 400 "y - 1601"] mod400_shift [of y] by simp
  show ?thesis
    using mod_100_4 [of y] mod_400_100 [of y]
    unfolding DayFromYear_def DaysInYear_def a b c by auto
qed

lemma DaysInYear_bounds: "365 \<le> DaysInYear y" "DaysInYear y \<le> 366"
  by (simp_all add: DaysInYear_def)

lemma DayFromYear_step: "z = y + 1 \<Longrightarrow> DayFromYear y < DayFromYear z"
  using DaysInYear_bounds(1) [of y] by (simp add: DayFromYear_Suc)

function year_adjust :: "int \<Rightarrow> int \<Rightarrow> int" where
  "year_adjust y d =
     (if d < DayFromYear y then year_adjust (y - 1) d
      else if DayFromYear (y + 1) \<le> d then year_adjust (y + 1) d
      else y)"
  by pat_completeness auto
termination
proof (relation "measure year_measure")
  show "wf (measure year_measure)"
    by simp
next
  fix y d :: int
  assume a: "d < DayFromYear y"
  show "((y - 1, d), (y, d)) \<in> measure year_measure"
  proof (cases "d < DayFromYear (y - 1)")
    case True
    moreover have "DayFromYear (y - 1) < DayFromYear y"
      by (rule DayFromYear_step) simp
    ultimately show ?thesis using a
      by (simp add: year_measure_def)
  next
    case False
    with a show ?thesis
      by (simp add: year_measure_def)
  qed
next
  fix y d :: int
  assume a: "\<not> d < DayFromYear y" "DayFromYear (y + 1) \<le> d"
  have "\<not> d < DayFromYear (y + 1)"
    using a by simp
  moreover have "DayFromYear (y + 1) < DayFromYear (y + 1 + 1)"
    by (rule DayFromYear_step) simp
  ultimately show "((y + 1, d), (y, d)) \<in> measure year_measure"
    using a unfolding year_measure_def by auto
qed

declare year_adjust.simps [simp del]

definition YearFromTime :: "int \<Rightarrow> int" where
  "YearFromTime t = year_adjust (1970 + Day t div 366) (Day t)"

text \<open>The year found is the one the ECMAScript definition asks for.\<close>

lemma year_adjust_bounds:
  "DayFromYear (year_adjust y d) \<le> d \<and> d < DayFromYear (year_adjust y d + 1)"
proof (induction y d rule: year_adjust.induct)
  case (1 y d)
  consider (down) "d < DayFromYear y"
    | (up) "\<not> d < DayFromYear y" "DayFromYear (y + 1) \<le> d"
    | (here) "\<not> d < DayFromYear y" "\<not> DayFromYear (y + 1) \<le> d"
    by blast
  then show ?case
  proof cases
    case down
    then have "year_adjust y d = year_adjust (y - 1) d"
      by (subst year_adjust.simps) simp
    with 1(1) [OF down] show ?thesis by simp
  next
    case up
    then have "year_adjust y d = year_adjust (y + 1) d"
      by (subst year_adjust.simps) simp
    with 1(2) [OF up] show ?thesis by simp
  next
    case here
    then have "year_adjust y d = y"
      by (subst year_adjust.simps) simp
    with here show ?thesis by simp
  qed
qed

definition InLeapYear :: "int \<Rightarrow> int" where
  "InLeapYear t = (if DaysInYear (YearFromTime t) = 366 then 1 else 0)"

definition DayWithinYear :: "int \<Rightarrow> int" where
  "DayWithinYear t = Day t - DayFromYear (YearFromTime t)"

definition MonthFromDay :: "int \<Rightarrow> int \<Rightarrow> int" where
  "MonthFromDay d l =
     (if d < 31 then 0
      else if d < 59 + l then 1
      else if d < 90 + l then 2
      else if d < 120 + l then 3
      else if d < 151 + l then 4
      else if d < 181 + l then 5
      else if d < 212 + l then 6
      else if d < 243 + l then 7
      else if d < 273 + l then 8
      else if d < 304 + l then 9
      else if d < 334 + l then 10
      else 11)"

definition MonthFromTime :: "int \<Rightarrow> int" where
  "MonthFromTime t = MonthFromDay (DayWithinYear t) (InLeapYear t)"

definition DateFromDay :: "int \<Rightarrow> int \<Rightarrow> int \<Rightarrow> int" where
  "DateFromDay d l m =
     (if m = 0 then d + 1
      else if m = 1 then d - 30
      else if m = 2 then d - 58 - l
      else if m = 3 then d - 89 - l
      else if m = 4 then d - 119 - l
      else if m = 5 then d - 150 - l
      else if m = 6 then d - 180 - l
      else if m = 7 then d - 211 - l
      else if m = 8 then d - 242 - l
      else if m = 9 then d - 272 - l
      else if m = 10 then d - 303 - l
      else d - 333 - l)"

definition DateFromTime :: "int \<Rightarrow> int" where
  "DateFromTime t = DateFromDay (DayWithinYear t) (InLeapYear t) (MonthFromTime t)"

definition WeekDay :: "int \<Rightarrow> int" where
  "WeekDay t = (Day t + 4) mod 7"

definition HourFromTime :: "int \<Rightarrow> int" where
  "HourFromTime t = (t div 3600000) mod 24"

definition MinFromTime :: "int \<Rightarrow> int" where
  "MinFromTime t = (t div 60000) mod 60"

definition SecFromTime :: "int \<Rightarrow> int" where
  "SecFromTime t = (t div 1000) mod 60"

definition msFromTime :: "int \<Rightarrow> int" where
  "msFromTime t = t mod 1000"

text \<open>
  \<^verbatim>\<open>Date.prototype.toISOString\<close> prints \<^verbatim>\<open>YYYY-MM-DDTHH:mm:ss.sssZ\<close> in UTC; a
  year outside 0 to 9999 is printed as a sign and six digits.
\<close>

definition digit :: "int \<Rightarrow> char" where
  "digit d = ''0123456789'' ! nat d"

definition pad2 :: "int \<Rightarrow> string" where
  "pad2 k = [digit (k div 10 mod 10), digit (k mod 10)]"

definition pad3 :: "int \<Rightarrow> string" where
  "pad3 k = digit (k div 100 mod 10) # pad2 k"

definition pad4 :: "int \<Rightarrow> string" where
  "pad4 k = digit (k div 1000 mod 10) # pad3 k"

definition pad6 :: "int \<Rightarrow> string" where
  "pad6 k = digit (k div 100000 mod 10) # digit (k div 10000 mod 10) # pad4 k"

definition year_string :: "int \<Rightarrow> string" where
  "year_string y =
     (if 0 \<le> y \<and> y \<le> 9999 then pad4 y
      else (if y < 0 then ''-'' else ''+'') @ pad6 \<bar>y\<bar>)"

definition toISOString :: "int \<Rightarrow> string" where
  "toISOString t =
     year_string (YearFromTime t) @ ''-'' @ pad2 (MonthFromTime t + 1) @ ''-'' @
     pad2 (DateFromTime t) @ ''T'' @ pad2 (HourFromTime t) @ '':'' @
     pad2 (MinFromTime t) @ '':'' @ pad2 (SecFromTime t) @ ''.'' @
     pad3 (msFromTime t) @ ''Z''"

section \<open>Policy Engine (packages/control policy.js)\<close>

subsection \<open>Window keys\<close>

text \<open>
  \<^verbatim>\<open>getWindowKey\<close> cuts the key of a budget window out of the ISO timestamp with
  \<^verbatim>\<open>slice\<close>. For the weekly key it reads the day of the week with \<^verbatim>\<open>getDay\<close> and
  moves the date with \<^verbatim>\<open>setDate(getDate() + mondayOffset)\<close>, both in the local time of
  the host. The local time zone is the parameter \<open>tz\<close>, a fixed offset from UTC in
  minutes (no daylight saving changes); under a fixed offset \<^verbatim>\<open>setDate\<close> moves the time
  value by whole days.
\<close>

datatype time_window = per_transaction | hourly | daily | weekly | monthly

definition LocalTime :: "int \<Rightarrow> int \<Rightarrow> int" where
  "LocalTime tz t = t + tz * 60000"

definition mondayOffset :: "int \<Rightarrow> int" where
  "mondayOffset day = (if day = 0 then - 6 else 1 - day)"

definition weekStart :: "int \<Rightarrow> int \<Rightarrow> int" where
  "weekStart tz date = date + mondayOffset (WeekDay (LocalTime tz date)) * msPerDay"

definition getWindowKey :: "int \<Rightarrow> time_window \<Rightarrow> int \<Rightarrow> string" where
  "getWindowKey tz w date =
     (case w of
        per_transaction \<Rightarrow> toISOString date
      | hourly \<Rightarrow> take 13 (toISOString date)
      | daily \<Rightarrow> take 10 (toISOString date)
      | weekly \<Rightarrow> take 10 (toISOString (weekStart tz date))
      | monthly \<Rightarrow> take 7 (toISOString date))"

subsection \<open>The calendar\<close>

lemma InLeapYear_DaysInYear: "DaysInYear (YearFromTime t) = 365 + InLeapYear t"
  by (simp add: InLeapYear_def DaysInYear_def)

lemma InLeapYear_cases: "InLeapYear t = 0 \<or> InLeapYear t = 1"
  by (simp add: InLeapYear_def)

lemma YearFromTime_bounds:
  "DayFromYear (YearFromTime t) \<le> Day t \<and> Day t < DayFromYear (YearFromTime t + 1)"
  by (simp add: YearFromTime_def year_adjust_bounds)

lemma DayWithinYear_bounds: "0 \<le> DayWithinYear t \<and> DayWithinYear t < 365 + InLeapYear t"
  using YearFromTime_bounds [of t] DayFromYear_Suc [of "YearFromTime t"]
    InLeapYear_DaysInYear [of t]
  by (simp add: DayWithinYear_def)

lemma MonthFromDay_bounds: "0 \<le> MonthFromDay d l \<and> MonthFromDay d l \<le> 11"
  by (simp add: MonthFromDay_def)

lemma MonthFromTime_bounds: "0 \<le> MonthFromTime t \<and> MonthFromTime t \<le> 11"
  by (simp add: MonthFromTime_def MonthFromDay_bounds)

lemma DateFromDay_bounds:
  assumes "0 \<le> d" "d < 365 + l" "l = 0 \<or> l = 1"
  shows "1 \<le> DateFromDay d l (MonthFromDay d l) \<and> DateFromDay d l (MonthFromDay d l) \<le> 31"
  using assms by (auto simp: DateFromDay_def MonthFromDay_def)

lemma DateFromTime_bounds: "1 \<le> DateFromTime t \<and> DateFromTime t \<le> 31"
  unfolding DateFromTime_def MonthFromTime_def
  using DayWithinYear_bounds [of t] InLeapYear_cases [of t]
  by (intro DateFromDay_bounds) simp_all

definition date_shift :: "int \<Rightarrow> int \<Rightarrow> int" where
  "date_shift m l =
     (if m = 0 then - 1 else if m = 1 then 30 else if m = 2 then 58 + l
      else if m = 3 then 89 + l else if m = 4 then 119 + l else if m = 5 then 150 + l
      else if m = 6 then 180 + l else if m = 7 then 211 + l else if m = 8 then 242 + l
      else if m = 9 then 272 + l else if m = 10 then 303 + l else 333 + l)"

lemma DateFromDay_shift: "DateFromDay d l m = d - date_shift m l"
  by (simp add: DateFromDay_def date_shift_def)

text \<open>The day number is determined by the year, the month and the date.\<close>

lemma Day_from_civil:
  "Day t = DayFromYear (YearFromTime t) +
           date_shift (MonthFromTime t) (InLeapYear t) + DateFromTime t"
  by (simp add: DateFromTime_def DateFromDay_shift DayWithinYear_def)

lemma civil_inj:
  assumes "YearFromTime s = YearFromTime t" "MonthFromTime s = MonthFromTime t"
    "DateFromTime s = DateFromTime t"
  shows "Day s = Day t"
proof -
  have "InLeapYear s = InLeapYear t"
    using assms(1) by (simp add: InLeapYear_def)
  with assms show ?thesis
    using Day_from_civil [of s] Day_from_civil [of t] by simp
qed

lemma civil_of_Day:
  assumes "Day s = Day t"
  shows "YearFromTime s = YearFromTime t" "MonthFromTime s = MonthFromTime t"
    "DateFromTime s = DateFromTime t"
  using assms
  by (simp_all add: YearFromTime_def MonthFromTime_def DateFromTime_def DayWithinYear_def
      InLeapYear_def)

subsection \<open>Digits\<close>

lemma digit_inj:
  assumes "0 \<le> a" "a < 10" "0 \<le> b" "b < 10" "digit a = digit b"
  shows "a = b"
proof -
  have d: "distinct ''0123456789''"
    by simp
  have "nat a < length ''0123456789''" "nat b < length ''0123456789''"
    using assms by simp_all
  with d assms(5) have "nat a = nat b"
    unfolding digit_def by (simp only: nth_eq_iff_index_eq)
  with assms show ?thesis by simp
qed

lemma digit_mod_inj: "digit (x mod 10) = digit (y mod 10) \<Longrightarrow> x mod 10 = y mod 10"
  by (rule digit_inj) simp_all

lemma digits_step:
  "x div 10 = y div 10 \<Longrightarrow> digit (x mod 10) = digit (y mod 10) \<Longrightarrow> x = y" for x y :: int
  by (metis digit_mod_inj div_mult_mod_eq)

lemma div10_bounds: "0 \<le> x \<Longrightarrow> x < 10 * n \<Longrightarrow> 0 \<le> x div 10 \<and> x div 10 < n" for x n :: int
  by (auto simp: div_less_iff_less_mult)

lemma div_100: "x div 100 = x div 10 div 10" for x :: int
  using zdiv_zmult2_eq [of 10 x 10] by simp

lemma div_1000: "x div 1000 = x div 100 div 10" for x :: int
  using zdiv_zmult2_eq [of 10 x 100] by simp

lemma length_pad [simp]: "length (pad2 k) = 2" "length (pad3 k) = 3" "length (pad4 k) = 4"
  by (simp_all add: pad2_def pad3_def pad4_def)

lemma pad2_inj:
  assumes "0 \<le> a" "a < 100" "0 \<le> b" "b < 100" "pad2 a = pad2 b"
  shows "a = b"
proof -
  from assms(5) have h: "digit (a div 10 mod 10) = digit (b div 10 mod 10)"
    "digit (a mod 10) = digit (b mod 10)"
    by (simp_all add: pad2_def)
  have "a div 10 mod 10 = a div 10" "b div 10 mod 10 = b div 10"
    using div10_bounds [of a 10] div10_bounds [of b 10] assms by simp_all
  with h(1) have "a div 10 = b div 10"
    using digit_mod_inj [of "a div 10" "b div 10"] by simp
  then show ?thesis
    using h(2) by (rule digits_step)
qed

lemma pad3_inj:
  assumes "0 \<le> a" "a < 1000" "0 \<le> b" "b < 1000" "pad3 a = pad3 b"
  shows "a = b"
proof -
  from assms(5) have h: "digit (a div 100 mod 10) = digit (b div 100 mod 10)"
    "digit (a div 10 mod 10) = digit (b div 10 mod 10)"
    "digit (a mod 10) = digit (b mod 10)"
    by (simp_all add: pad3_def pad2_def)
  have "0 \<le> a div 10 \<and> a div 10 < 100" "0 \<le> b div 10 \<and> b div 10 < 100"
    using div10_bounds [of a 100] div10_bounds [of b 100] assms by simp_all
  then have "a div 100 mod 10 = a div 100" "b div 100 mod 10 = b div 100"
    using div10_bounds [of "a div 10" 10] div10_bounds [of "b div 10" 10]
    by (simp_all add: div_100)
  with h(1) have "a div 100 = b div 100"
    using digit_mod_inj [of "a div 100" "b div 100"] by simp
  then have "a div 10 div 10 = b div 10 div 10"
    by (simp add: div_100)
  then have "a div 10 = b div 10"
    using h(2) by (rule digits_step)
  then show ?thesis
    using h(3) by (rule digits_step)
qed

lemma pad4_inj:
  assumes "0 \<le> a" "a \<le> 9999" "0 \<le> b" "b \<le> 9999" "pad4 a = pad4 b"
  shows "a = b"
proof -
  from assms(5) have h: "digit (a div 1000 mod 10) = digit (b div 1000 mod 10)"
    "pad3 a = pad3 b"
    by (simp_all add: pad4_def)
  from h(2) have h3: "digit (a div 100 mod 10) = digit (b div 100 mod 10)"
    "digit (a div 10 mod 10) = digit (b div 10 mod 10)"
    "digit (a mod 10) = digit (b mod 10)"
    by (simp_all add: pad3_def pad2_def)
  have "0 \<le> a div 10 \<and> a div 10 < 1000" "0 \<le> b div 10 \<and> b div 10 < 1000"
    using div10_bounds [of a 1000] div10_bounds [of b 1000] assms by simp_all
  then have "0 \<le> a div 100 \<and> a div 100 < 100" "0 \<le> b div 100 \<and> b div 100 < 100"
    using div10_bounds [of "a div 10" 100] div10_bounds [of "b div 10" 100]
    by (simp_all add: div_100)
  then have "a div 1000 mod 10 = a div 1000" "b div 1000 mod 10 = b div 1000"
    using div10_bounds [of "a div 100" 10] div10_bounds [of "b div 100" 10]
    by (simp_all add: div_1000)
  with h(1) have "a div 1000 = b div 1000"
    using digit_mod_inj [of "a div 1000" "b div 1000"] by simp
  then have "a div 100 div 10 = b div 100 div 10"
    by (simp add: div_1000)
  then have "a div 100 = b div 100"
    using h3(1) by (rule digits_step)
  then have "a div 10 div 10 = b div 10 div 10"
    by (simp add: div_100)
  then have "a div 10 = b div 10"
    using h3(2) by (rule digits_step)
  then show ?thesis
    using h3(3) by (rule digits_step)
qed

subsection \<open>Formats of the window keys\<close>

text \<open>The date \<^verbatim>\<open>YYYY-MM-DD\<close> of a time value in UTC, for a year of four digits.\<close>

definition date_string :: "int \<Rightarrow> string" where
  "date_string t =
     pad4 (YearFromTime t) @ ''-'' @ pad2 (MonthFromTime t + 1) @ ''-'' @ pad2 (DateFromTime t)"

definition four_digit_year :: "int \<Rightarrow> bool" where
  "four_digit_year t \<longleftrightarrow> 0 \<le> YearFromTime t \<and> YearFromTime t \<le> 9999"

text \<open>The windows of the specification, numbered: the millisecond itself for
  \<^verbatim>\<open>per_transaction\<close>, the hour, the day, the week from Monday to Sunday and the
  calendar month, all in UTC.\<close>

definition window_index :: "time_window \<Rightarrow> int \<Rightarrow> int" where
  "window_index w t =
     (case w of
        per_transaction \<Rightarrow> t
      | hourly \<Rightarrow> t div 3600000
      | daily \<Rightarrow> Day t
      | weekly \<Rightarrow> (Day t + 3) div 7
      | monthly \<Rightarrow> 12 * YearFromTime t + MonthFromTime t)"

lemma length_date_string [simp]: "length (date_string t) = 10"
  by (simp add: date_string_def)

lemma toISOString_four_digit:
  "four_digit_year t \<Longrightarrow>
   toISOString t =
     date_string t @ ''T'' @ pad2 (HourFromTime t) @ '':'' @ pad2 (MinFromTime t) @ '':'' @
     pad2 (SecFromTime t) @ ''.'' @ pad3 (msFromTime t) @ ''Z''"
  by (simp add: toISOString_def year_string_def date_string_def four_digit_year_def)

lemma hourly_key:
  "four_digit_year t \<Longrightarrow>
   getWindowKey tz hourly t = date_string t @ ''T'' @ pad2 (HourFromTime t)"
  by (simp add: getWindowKey_def toISOString_four_digit)

lemma daily_key: "four_digit_year t \<Longrightarrow> getWindowKey tz daily t = date_string t"
  by (simp add: getWindowKey_def toISOString_four_digit)

lemma monthly_key:
  "four_digit_year t \<Longrightarrow>
   getWindowKey tz monthly t = pad4 (YearFromTime t) @ ''-'' @ pad2 (MonthFromTime t + 1)"
  by (simp add: getWindowKey_def toISOString_four_digit date_string_def)

lemma weekly_key:
  "four_digit_year (weekStart tz t) \<Longrightarrow>
   getWindowKey tz weekly t = date_string (weekStart tz t)"
  by (simp add: getWindowKey_def toISOString_four_digit)

lemma date_string_civil:
  assumes "four_digit_year s" "four_digit_year t"
    and "pad4 (YearFromTime s) = pad4 (YearFromTime t)"
    and "pad2 (MonthFromTime s + 1) = pad2 (MonthFromTime t + 1)"
  shows "YearFromTime s = YearFromTime t \<and> MonthFromTime s = MonthFromTime t"
proof -
  have y: "YearFromTime s = YearFromTime t"
    using assms(1,2,3) by (intro pad4_inj) (simp_all add: four_digit_year_def)
  have "MonthFromTime s + 1 = MonthFromTime t + 1"
    using MonthFromTime_bounds [of s] MonthFromTime_bounds [of t] assms(4)
    by (intro pad2_inj) simp_all
  with y show ?thesis by simp
qed

lemma date_string_year: "take 4 (date_string t) = pad4 (YearFromTime t)"
  by (simp add: date_string_def)

lemma date_string_month: "take 2 (drop 5 (date_string t)) = pad2 (MonthFromTime t + 1)"
  by (simp add: date_string_def)

lemma date_string_date: "drop 8 (date_string t) = pad2 (DateFromTime t)"
  by (simp add: date_string_def)

lemma date_string_inj:
  assumes "four_digit_year s" "four_digit_year t" "date_string s = date_string t"
  shows "Day s = Day t"
proof -
  have p: "pad4 (YearFromTime s) = pad4 (YearFromTime t)"
    "pad2 (MonthFromTime s + 1) = pad2 (MonthFromTime t + 1)"
    "pad2 (DateFromTime s) = pad2 (DateFromTime t)"
    using arg_cong [OF assms(3), of "take 4"]
      arg_cong [OF assms(3), of "\<lambda>x. take 2 (drop 5 x)"]
      arg_cong [OF assms(3), of "drop 8"]
    by (simp_all only: date_string_year date_string_month date_string_date)
  have ym: "YearFromTime s = YearFromTime t \<and> MonthFromTime s = MonthFromTime t"
    using assms(1,2) p(1,2) by (rule date_string_civil)
  have "DateFromTime s = DateFromTime t"
    using DateFromTime_bounds [of s] DateFromTime_bounds [of t] p(3)
    by (intro pad2_inj) simp_all
  with ym show ?thesis
    by (intro civil_inj) simp_all
qed

lemma date_string_Day: "Day s = Day t \<Longrightarrow> date_string s = date_string t"
  unfolding date_string_def
  by (simp only: civil_of_Day [of s t])

lemma date_string_iff:
  "four_digit_year s \<Longrightarrow> four_digit_year t \<Longrightarrow>
   date_string s = date_string t \<longleftrightarrow> Day s = Day t"
  using date_string_inj date_string_Day by blast

subsection \<open>Time of day\<close>

lemma hour_split: "t div 3600000 = 24 * Day t + HourFromTime t"
proof -
  have "Day t = t div 3600000 div 24"
    using zdiv_zmult2_eq [of 24 t 3600000] by (simp add: Day_def msPerDay_def)
  then show ?thesis
    by (simp add: HourFromTime_def)
qed

lemma minute_split: "t div 60000 = 60 * (t div 3600000) + MinFromTime t"
proof -
  have "t div 3600000 = t div 60000 div 60"
    using zdiv_zmult2_eq [of 60 t 60000] by simp
  then show ?thesis
    by (simp add: MinFromTime_def)
qed

lemma second_split: "t div 1000 = 60 * (t div 60000) + SecFromTime t"
proof -
  have "t div 60000 = t div 1000 div 60"
    using zdiv_zmult2_eq [of 60 t 1000] by simp
  then show ?thesis
    by (simp add: SecFromTime_def)
qed

lemma ms_split: "t = 1000 * (t div 1000) + msFromTime t"
  by (simp add: msFromTime_def)

lemma time_bounds:
  "0 \<le> HourFromTime t \<and> HourFromTime t < 100"
  "0 \<le> MinFromTime t \<and> MinFromTime t < 100"
  "0 \<le> SecFromTime t \<and> SecFromTime t < 100"
  "0 \<le> msFromTime t \<and> msFromTime t < 1000"
proof -
  have "HourFromTime t < 24" "MinFromTime t < 60" "SecFromTime t < 60"
    by (simp_all add: HourFromTime_def MinFromTime_def SecFromTime_def)
  then show "0 \<le> HourFromTime t \<and> HourFromTime t < 100"
    "0 \<le> MinFromTime t \<and> MinFromTime t < 100"
    "0 \<le> SecFromTime t \<and> SecFromTime t < 100"
    "0 \<le> msFromTime t \<and> msFromTime t < 1000"
    by (simp_all add: HourFromTime_def MinFromTime_def SecFromTime_def msFromTime_def)
qed

lemma Day_of_hours: "s div 3600000 = t div 3600000 \<Longrightarrow> Day s = Day t \<and> HourFromTime s = HourFromTime t"
proof -
  assume a: "s div 3600000 = t div 3600000"
  have "Day s = s div 3600000 div 24" "Day t = t div 3600000 div 24"
    using zdiv_zmult2_eq [of 24 s 3600000] zdiv_zmult2_eq [of 24 t 3600000]
    by (simp_all add: Day_def msPerDay_def)
  with a show ?thesis
    by (simp add: HourFromTime_def)
qed

subsection \<open>Equal keys and equal windows\<close>

lemma hourly_iff:
  assumes "four_digit_year s" "four_digit_year t"
  shows "getWindowKey tz hourly s = getWindowKey tz hourly t \<longleftrightarrow>
         s div 3600000 = t div 3600000"
proof
  assume k: "getWindowKey tz hourly s = getWindowKey tz hourly t"
  have e: "date_string s @ ''T'' @ pad2 (HourFromTime s) =
           date_string t @ ''T'' @ pad2 (HourFromTime t)"
    using k assms by (simp only: hourly_key)
  have "date_string s = date_string t"
    using arg_cong [OF e, of "take 10"] by simp
  then have d: "Day s = Day t"
    using assms by (intro date_string_inj)
  have "pad2 (HourFromTime s) = pad2 (HourFromTime t)"
    using arg_cong [OF e, of "drop 11"] by simp
  then have "HourFromTime s = HourFromTime t"
    using time_bounds(1) [of s] time_bounds(1) [of t] by (intro pad2_inj) simp_all
  with d show "s div 3600000 = t div 3600000"
    by (simp add: hour_split)
next
  assume "s div 3600000 = t div 3600000"
  then have "Day s = Day t \<and> HourFromTime s = HourFromTime t"
    by (rule Day_of_hours)
  then show "getWindowKey tz hourly s = getWindowKey tz hourly t"
    using assms date_string_Day [of s t] by (simp add: hourly_key)
qed

lemma daily_iff:
  assumes "four_digit_year s" "four_digit_year t"
  shows "getWindowKey tz daily s = getWindowKey tz daily t \<longleftrightarrow> Day s = Day t"
  using assms by (simp add: daily_key date_string_iff)

lemma month_index_inj:
  fixes y m y' m' :: int
  assumes "0 \<le> m" "m \<le> 11" "0 \<le> m'" "m' \<le> 11" "12 * y + m = 12 * y' + m'"
  shows "y = y' \<and> m = m'"
proof -
  have "(12 * y + m) div 12 = y" "(12 * y' + m') div 12 = y'"
    using assms by simp_all
  with assms(5) have "y = y'" by simp
  with assms(5) show ?thesis by simp
qed

lemma monthly_iff:
  assumes "four_digit_year s" "four_digit_year t"
  shows "getWindowKey tz monthly s = getWindowKey tz monthly t \<longleftrightarrow>
         12 * YearFromTime s + MonthFromTime s = 12 * YearFromTime t + MonthFromTime t"
proof
  assume k: "getWindowKey tz monthly s = getWindowKey tz monthly t"
  have e: "pad4 (YearFromTime s) @ ''-'' @ pad2 (MonthFromTime s + 1) =
           pad4 (YearFromTime t) @ ''-'' @ pad2 (MonthFromTime t + 1)"
    using k assms by (simp only: monthly_key)
  have "pad4 (YearFromTime s) = pad4 (YearFromTime t)"
    using arg_cong [OF e, of "take 4"] by simp
  moreover have "pad2 (MonthFromTime s + 1) = pad2 (MonthFromTime t + 1)"
    using arg_cong [OF e, of "drop 5"] by simp
  ultimately have "YearFromTime s = YearFromTime t \<and> MonthFromTime s = MonthFromTime t"
    using assms by (intro date_string_civil)
  then show "12 * YearFromTime s + MonthFromTime s = 12 * YearFromTime t + MonthFromTime t"
    by simp
next
  assume "12 * YearFromTime s + MonthFromTime s = 12 * YearFromTime t + MonthFromTime t"
  then have "YearFromTime s = YearFromTime t \<and> MonthFromTime s = MonthFromTime t"
    using MonthFromTime_bounds [of s] MonthFromTime_bounds [of t]
    by (intro month_index_inj) simp_all
  then show "getWindowKey tz monthly s = getWindowKey tz monthly t"
    using assms by (simp add: monthly_key)
qed

subsection \<open>Weeks\<close>

lemma Day_shift: "Day (t + k * msPerDay) = Day t + k"
  by (simp add: Day_def msPerDay_def)

lemma mondayOffset_WeekDay: "mondayOffset ((d + 4) mod 7) = - ((d + 3) mod 7)"
proof -
  define w where "w = (d + 4) mod 7"
  have b: "0 \<le> w" "w < 7"
    by (simp_all add: w_def)
  have "(d + 3) mod 7 = (d + 4 + 6) mod 7"
    using mod_add_self2 [of "d + 3" 7] by (simp add: algebra_simps)
  also have "\<dots> = (w + 6) mod 7"
    unfolding w_def by (simp add: mod_add_left_eq)
  finally have e: "(d + 3) mod 7 = (w + 6) mod 7" .
  show ?thesis
  proof (cases "w = 0")
    case True
    with e show ?thesis
      by (simp add: mondayOffset_def w_def [symmetric])
  next
    case False
    with b have "0 \<le> w - 1" "w - 1 < 7"
      by simp_all
    then have "(w - 1) mod 7 = w - 1"
      by simp
    moreover have "(w + 6) mod 7 = (w - 1) mod 7"
      using mod_add_self2 [of "w - 1" 7] by (simp add: algebra_simps)
    ultimately show ?thesis
      using e False by (simp add: mondayOffset_def w_def [symmetric])
  qed
qed

lemma Day_weekStart: "Day (weekStart 0 t) = Day t - (Day t + 3) mod 7"
proof -
  have "weekStart 0 t = t + mondayOffset ((Day t + 4) mod 7) * msPerDay"
    by (simp add: weekStart_def LocalTime_def WeekDay_def)
  then have "Day (weekStart 0 t) = Day t + mondayOffset ((Day t + 4) mod 7)"
    by (simp only: Day_shift)
  then show ?thesis
    by (simp add: mondayOffset_WeekDay)
qed

lemma Day_weekStart_index: "Day (weekStart 0 t) = 7 * ((Day t + 3) div 7) - 3"
proof -
  have "Day t + 3 = 7 * ((Day t + 3) div 7) + (Day t + 3) mod 7"
    by simp
  then show ?thesis
    unfolding Day_weekStart by linarith
qed

lemma weekStart_Monday:
  "WeekDay (weekStart 0 t) = 1 \<and> Day (weekStart 0 t) \<le> Day t \<and> Day t \<le> Day (weekStart 0 t) + 6"
proof -
  have "(7 * ((Day t + 3) div 7) - 3 + 4) mod 7 = (1 + 7 * ((Day t + 3) div 7)) mod 7"
    by (simp add: algebra_simps)
  also have "\<dots> = 1"
    by simp
  finally have "(7 * ((Day t + 3) div 7) - 3 + 4) mod 7 = 1" .
  then have "WeekDay (weekStart 0 t) = 1"
    unfolding WeekDay_def Day_weekStart_index .
  moreover have "0 \<le> (Day t + 3) mod 7" "(Day t + 3) mod 7 < 7"
    by simp_all
  ultimately show ?thesis
    unfolding Day_weekStart by simp
qed

lemma weekly_iff:
  assumes "four_digit_year (weekStart 0 s)" "four_digit_year (weekStart 0 t)"
  shows "getWindowKey 0 weekly s = getWindowKey 0 weekly t \<longleftrightarrow>
         (Day s + 3) div 7 = (Day t + 3) div 7"
proof -
  have "getWindowKey 0 weekly s = getWindowKey 0 weekly t \<longleftrightarrow>
        Day (weekStart 0 s) = Day (weekStart 0 t)"
    using assms by (simp add: weekly_key date_string_iff)
  then show ?thesis
    unfolding Day_weekStart_index by simp
qed

subsection \<open>Timestamps\<close>

lemma toISOString_parts:
  assumes "four_digit_year t"
  shows "take 10 (toISOString t) = date_string t"
    and "take 2 (drop 11 (toISOString t)) = pad2 (HourFromTime t)"
    and "take 2 (drop 14 (toISOString t)) = pad2 (MinFromTime t)"
    and "take 2 (drop 17 (toISOString t)) = pad2 (SecFromTime t)"
    and "take 3 (drop 20 (toISOString t)) = pad3 (msFromTime t)"
  using assms by (simp_all add: toISOString_four_digit)

lemma per_transaction_iff:
  assumes "four_digit_year s" "four_digit_year t"
  shows "getWindowKey tz per_transaction s = getWindowKey tz per_transaction t \<longleftrightarrow> s = t"
proof
  assume "getWindowKey tz per_transaction s = getWindowKey tz per_transaction t"
  then have k: "toISOString s = toISOString t"
    by (simp add: getWindowKey_def)
  have "date_string s = date_string t"
    using arg_cong [OF k, of "take 10"] assms by (simp only: toISOString_parts)
  then have d: "Day s = Day t"
    using assms by (intro date_string_inj)
  have "pad2 (HourFromTime s) = pad2 (HourFromTime t)"
    using arg_cong [OF k, of "\<lambda>x. take 2 (drop 11 x)"] assms by (simp only: toISOString_parts)
  then have h: "HourFromTime s = HourFromTime t"
    using time_bounds(1) [of s] time_bounds(1) [of t] by (intro pad2_inj) simp_all
  have "pad2 (MinFromTime s) = pad2 (MinFromTime t)"
    using arg_cong [OF k, of "\<lambda>x. take 2 (drop 14 x)"] assms by (simp only: toISOString_parts)
  then have m: "MinFromTime s = MinFromTime t"
    using time_bounds(2) [of s] time_bounds(2) [of t] by (intro pad2_inj) simp_all
  have "pad2 (SecFromTime s) = pad2 (SecFromTime t)"
    using arg_cong [OF k, of "\<lambda>x. take 2 (drop 17 x)"] assms by (simp only: toISOString_parts)
  then have c: "SecFromTime s = SecFromTime t"
    using time_bounds(3) [of s] time_bounds(3) [of t] by (intro pad2_inj) simp_all
  have "pad3 (msFromTime s) = pad3 (msFromTime t)"
    using arg_cong [OF k, of "\<lambda>x. take 3 (drop 20 x)"] assms by (simp only: toISOString_parts)
  then have ms: "msFromTime s = msFromTime t"
    using time_bounds(4) [of s] time_bounds(4) [of t] by (intro pad3_inj) simp_all
  have "s div 3600000 = t div 3600000"
    using d h by (simp add: hour_split)
  then have "s div 60000 = t div 60000"
    using m by (simp add: minute_split)
  then have "s div 1000 = t div 1000"
    using c by (simp add: second_split)
  then show "s = t"
    using ms ms_split [of s] ms_split [of t] by simp
next
  assume "s = t"
  then show "getWindowKey tz per_transaction s = getWindowKey tz per_transaction t"
    by simp
qed

text \<open>
  C3 (as amended). For time values whose year has four digits (for the weekly key: whose
  week start has a year of four digits), the key is the full ISO timestamp for
  \<^verbatim>\<open>per_transaction\<close>, \<^verbatim>\<open>YYYY-MM-DDTHH\<close> for \<^verbatim>\<open>hourly\<close>, \<^verbatim>\<open>YYYY-MM-DD\<close> for
  \<^verbatim>\<open>daily\<close> and \<^verbatim>\<open>YYYY-MM\<close> for \<^verbatim>\<open>monthly\<close>, all in UTC. On a host whose local
  time is UTC the \<^verbatim>\<open>weekly\<close> key is the \<^verbatim>\<open>YYYY-MM-DD\<close> of the Monday of the week of
  the time value. Two time values have equal keys exactly when they are in the same
  window (the same millisecond, hour, day, week from Monday, or calendar month of UTC);
  so the keys of time values in adjacent windows differ.
\<close>

theorem getWindowKey_windows:
  assumes "four_digit_year s" "four_digit_year t"
    and "four_digit_year (weekStart 0 s)" "four_digit_year (weekStart 0 t)"
  shows "getWindowKey tz per_transaction t =
           date_string t @ ''T'' @ pad2 (HourFromTime t) @ '':'' @ pad2 (MinFromTime t) @
           '':'' @ pad2 (SecFromTime t) @ ''.'' @ pad3 (msFromTime t) @ ''Z'' \<and>
         getWindowKey tz hourly t = date_string t @ ''T'' @ pad2 (HourFromTime t) \<and>
         getWindowKey tz daily t = date_string t \<and>
         getWindowKey tz monthly t =
           pad4 (YearFromTime t) @ ''-'' @ pad2 (MonthFromTime t + 1) \<and>
         getWindowKey 0 weekly t = date_string (weekStart 0 t) \<and>
         WeekDay (weekStart 0 t) = 1 \<and>
         Day (weekStart 0 t) \<le> Day t \<and> Day t \<le> Day (weekStart 0 t) + 6 \<and>
         (w \<noteq> weekly \<or> tz = 0 \<longrightarrow>
            (getWindowKey tz w s = getWindowKey tz w t \<longleftrightarrow>
             window_index w s = window_index w t))"
proof -
  have p: "getWindowKey tz per_transaction t =
           date_string t @ ''T'' @ pad2 (HourFromTime t) @ '':'' @ pad2 (MinFromTime t) @
           '':'' @ pad2 (SecFromTime t) @ ''.'' @ pad3 (msFromTime t) @ ''Z''"
    using toISOString_four_digit [OF assms(2)] by (simp add: getWindowKey_def)
  have i: "getWindowKey tz w s = getWindowKey tz w t \<longleftrightarrow> window_index w s = window_index w t"
    if "w \<noteq> weekly \<or> tz = 0"
  proof (cases w)
    case per_transaction
    then show ?thesis
      using per_transaction_iff [OF assms(1,2), of tz] by (simp add: window_index_def)
  next
    case hourly
    then show ?thesis
      using hourly_iff [OF assms(1,2), of tz] by (simp add: window_index_def)
  next
    case daily
    then show ?thesis
      using daily_iff [OF assms(1,2), of tz] by (simp add: window_index_def)
  next
    case weekly
    with that have "tz = 0" by simp
    with weekly show ?thesis
      using weekly_iff [OF assms(3,4)] by (simp add: window_index_def)
  next
    case monthly
    then show ?thesis
      using monthly_iff [OF assms(1,2), of tz] by (simp add: window_index_def)
  qed
  show ?thesis
    using p hourly_key [OF assms(2), of tz] daily_key [OF assms(2), of tz]
      monthly_key [OF assms(2), of tz] weekly_key [OF assms(4)] weekStart_Monday [of t] i
    by blast
qed

theorem getWindowKey_windows_witness:
  "getWindowKey 0 hourly 1709210096789 = ''2024-02-29T12'' \<and>
   getWindowKey 0 weekly 1709210096789 = ''2024-02-26'' \<and>
   getWindowKey 0 monthly 1709210096789 = ''2024-02'' \<and>
   getWindowKey 0 daily 1709210096789 \<noteq> getWindowKey 0 daily 1709251200000"
proof -
  have h: "four_digit_year 1709210096789" "four_digit_year 1709251200000"
    "four_digit_year (weekStart 0 1709210096789)" "four_digit_year (weekStart 0 1709251200000)"
    by code_simp+
  note w = getWindowKey_windows [OF h, of 0 daily]
  have x: "window_index daily 1709210096789 \<noteq> window_index daily 1709251200000"
    by code_simp
  from w have "getWindowKey 0 daily 1709210096789 = getWindowKey 0 daily 1709251200000 \<longleftrightarrow>
      window_index daily 1709210096789 = window_index daily 1709251200000"
    by blast
  with x have "getWindowKey 0 daily 1709210096789 \<noteq> getWindowKey 0 daily 1709251200000"
    by blast
  moreover have "getWindowKey 0 hourly 1709210096789 = ''2024-02-29T12''"
    "getWindowKey 0 weekly 1709210096789 = ''2024-02-26''"
    "getWindowKey 0 monthly 1709210096789 = ''2024-02''"
    by code_simp+
  ultimately show ?thesis
    by simp
qed

text \<open>
  C3 as stated fails for \<^verbatim>\<open>per_transaction\<close>: the key is not the empty string but the
  full ISO timestamp of the transaction.
\<close>

theorem per_transaction_key_counterexample:
  "getWindowKey 0 per_transaction 0 = ''1970-01-01T00:00:00.000Z'' \<and>
   getWindowKey 0 per_transaction 0 \<noteq> ''''"
  by code_simp

text \<open>Where the amended claim stops. On a host one hour east of UTC, Sunday 4 January
  1970, 23:30 UTC, is a Monday in local time, and the weekly key is the UTC date of that
  Sunday, not of the Monday of the UTC week. From the year 10000 on, the ISO timestamp
  starts with a sign and six digits of the year, and the first ten characters no longer
  tell the days of a month apart.\<close>

lemma weekly_key_local_time:
  "getWindowKey 60 weekly 343800000 = ''1970-01-04'' \<and> WeekDay 343800000 = 0 \<and>
   getWindowKey 0 weekly 343800000 = ''1969-12-29''"
  by code_simp

lemma daily_key_year_10000:
  "getWindowKey 0 daily 253402300800000 = ''+010000-01'' \<and>
   getWindowKey 0 daily (253402300800000 + 86400000) = ''+010000-01''"
  by code_simp

subsection \<open>Transactions and policies\<close>

text \<open>
  The types of \<^verbatim>\<open>@paysentry/core\<close>. An optional field is an \<^typ>\<open>'a option\<close>. Amounts
  are JavaScript numbers in the source; they are modelled as exact rationals, so sums
  and comparisons are those of the decimal amounts the specification speaks of.
  \<^verbatim>\<open>createdAt\<close> and \<^verbatim>\<open>updatedAt\<close> are ISO timestamps in the source and are modelled
  by the time value that \<^verbatim>\<open>new Date(tx.createdAt)\<close> reads from them. Metadata values
  are strings.
\<close>

datatype payment_protocol = x402 | acp | ap2 | stripe | custom

datatype transaction_status =
  pending | approved | rejected | executing | completed | failed | disputed | refunded

record transaction =
  tx_id :: string
  tx_agentId :: string
  tx_recipient :: string
  tx_amount :: rat
  tx_currency :: string
  tx_purpose :: string
  tx_protocol :: payment_protocol
  tx_status :: transaction_status
  tx_service :: "string option"
  tx_createdAt :: int
  tx_updatedAt :: int
  tx_protocolTxId :: "string option"
  tx_metadata :: "(string \<times> string) list"

datatype policy_action = allow | deny | require_approval | flag

record policy_condition =
  c_agents :: "string list option"
  c_recipients :: "string list option"
  c_services :: "string list option"
  c_protocols :: "payment_protocol list option"
  c_minAmount :: "rat option"
  c_maxAmount :: "rat option"
  c_currencies :: "string list option"
  c_metadata :: "(string \<times> string) list option"

record policy_rule =
  r_id :: string
  r_name :: string
  r_enabled :: bool
  r_priority :: int
  r_conditions :: policy_condition
  r_action :: policy_action

record budget_limit =
  b_window :: time_window
  b_maxAmount :: rat
  b_currency :: "string option"
  b_agentIds :: "string list option"
  b_serviceIds :: "string list option"

record spend_policy =
  p_id :: string
  p_name :: string
  p_enabled :: bool
  p_rules :: "policy_rule list"
  p_budgets :: "budget_limit list"
  p_cooldownMs :: "int option"

record spend_bucket =
  bk_key :: string
  bk_amount :: rat
  bk_count :: nat

text \<open>
  The reason of a decision is a message built from the data of the decision
  (\<^verbatim>\<open>No policies loaded\<close>, \<^verbatim>\<open><window> budget exceeded: ...\<close>,
  \<^verbatim>\<open>Cooldown active: <remaining>ms remaining ...\<close>, \<^verbatim>\<open>Rule "<name>" matched ...\<close>,
  \<^verbatim>\<open>No rules matched in policy "<name>"\<close>); the model keeps the kind of the message
  and that data. The details are the record the source returns next to it.
\<close>

datatype eval_reason =
    NoPoliciesLoaded
  | BudgetExceeded time_window rat rat "string option"
  | CooldownActive int int
  | RuleMatched string policy_action
  | NoRulesMatched string

datatype eval_details =
    NoDetails
  | BudgetDetails string string time_window rat rat rat rat "string option"
  | CooldownDetails string string int int int
  | RuleDetails string string string string policy_action
  | PolicyDetails string string

record policy_evaluation =
  e_allowed :: bool
  e_action :: policy_action
  e_triggeredRule :: "policy_rule option"
  e_reason :: eval_reason
  e_details :: eval_details

subsection \<open>The engine\<close>

text \<open>
  The state of a \<^verbatim>\<open>PolicyEngine\<close>: the loaded policies in the order of a JavaScript
  \<^verbatim>\<open>Map\<close>, the spend buckets and the last transaction time of each agent. The clock
  reading \<^verbatim>\<open>Date.now()\<close> is the parameter \<open>now\<close> of the operations that read it, the
  local time zone of the host the parameter \<open>tz\<close>.
\<close>

record policy_engine =
  policies :: "(string \<times> spend_policy) list"
  spendBuckets :: "string \<rightharpoonup> spend_bucket"
  lastTransactionTime :: "string \<rightharpoonup> int"

definition new_engine :: policy_engine where
  "new_engine = \<lparr>policies = [], spendBuckets = Map.empty, lastTransactionTime = Map.empty\<rparr>"

definition loadPolicy :: "policy_engine \<Rightarrow> spend_policy \<Rightarrow> policy_engine" where
  "loadPolicy eng p = eng\<lparr>policies := AList.update (p_id p) p (policies eng)\<rparr>"

definition removePolicy :: "policy_engine \<Rightarrow> string \<Rightarrow> bool \<times> policy_engine" where
  "removePolicy eng pid =
     (map_of (policies eng) pid \<noteq> None, eng\<lparr>policies := AList.delete pid (policies eng)\<rparr>)"

definition getPolicies :: "policy_engine \<Rightarrow> spend_policy list" where
  "getPolicies eng = map snd (policies eng)"

definition reset :: "policy_engine \<Rightarrow> policy_engine" where
  "reset eng = eng\<lparr>spendBuckets := Map.empty, lastTransactionTime := Map.empty\<rparr>"

text \<open>JavaScript truthiness of an optional string (absent and empty are falsy), of
  \<^verbatim>\<open>xs?.length\<close> (absent and empty are falsy), and \<^verbatim>\<open>xs.includes(x)\<close>.\<close>

definition truthy :: "string option \<Rightarrow> bool" where
  "truthy s = (case s of None \<Rightarrow> False | Some v \<Rightarrow> v \<noteq> [])"

definition has_length :: "'a list option \<Rightarrow> bool" where
  "has_length xs = (case xs of None \<Rightarrow> False | Some v \<Rightarrow> v \<noteq> [])"

definition array_includes :: "'a list option \<Rightarrow> 'a \<Rightarrow> bool" where
  "array_includes xs x = (case xs of None \<Rightarrow> False | Some v \<Rightarrow> x \<in> set v)"

fun join :: "string \<Rightarrow> string list \<Rightarrow> string" where
  "join sep [] = []"
| "join sep [x] = x"
| "join sep (x # y # ys) = x @ sep @ join sep (y # ys)"

definition window_name :: "time_window \<Rightarrow> string" where
  "window_name w =
     (case w of
        per_transaction \<Rightarrow> ''per_transaction''
      | hourly \<Rightarrow> ''hourly''
      | daily \<Rightarrow> ''daily''
      | weekly \<Rightarrow> ''weekly''
      | monthly \<Rightarrow> ''monthly'')"

definition getBudgetScope :: "budget_limit \<Rightarrow> string" where
  "getBudgetScope budget =
     (let parts =
            (if has_length (b_agentIds budget)
             then [''agents:'' @ join '','' (the (b_agentIds budget))] else []) @
            (if has_length (b_serviceIds budget)
             then [''services:'' @ join '','' (the (b_serviceIds budget))] else []) @
            (if truthy (b_currency budget)
             then [''currency:'' @ the (b_currency budget)] else [])
      in if parts \<noteq> [] then join ''|'' parts else ''global'')"

definition getBudgetBucketKey :: "int \<Rightarrow> string \<Rightarrow> budget_limit \<Rightarrow> transaction \<Rightarrow> string" where
  "getBudgetBucketKey tz policyId budget tx =
     (let windowKey = getWindowKey tz (b_window budget) (tx_createdAt tx);
          scope = getBudgetScope budget
      in policyId @ '':'' @ scope @ '':'' @ window_name (b_window budget) @ '':'' @ windowKey)"

text \<open>The three \<^verbatim>\<open>continue\<close> tests that \<^verbatim>\<open>evaluateBudgets\<close> and
  \<^verbatim>\<open>recordTransaction\<close> share: currency, agent scope, service scope.\<close>

definition budget_skipped :: "budget_limit \<Rightarrow> transaction \<Rightarrow> bool" where
  "budget_skipped budget tx \<longleftrightarrow>
     (truthy (b_currency budget) \<and> b_currency budget \<noteq> Some (tx_currency tx)) \<or>
     (has_length (b_agentIds budget) \<and> \<not> array_includes (b_agentIds budget) (tx_agentId tx)) \<or>
     (has_length (b_serviceIds budget) \<and>
        (\<not> truthy (tx_service tx) \<or> \<not> array_includes (b_serviceIds budget) (the (tx_service tx))))"

definition bucket_amount :: "(string \<rightharpoonup> spend_bucket) \<Rightarrow> string \<Rightarrow> rat" where
  "bucket_amount buckets k = (case buckets k of None \<Rightarrow> 0 | Some b \<Rightarrow> bk_amount b)"

definition budget_denial ::
  "spend_policy \<Rightarrow> budget_limit \<Rightarrow> rat \<Rightarrow> transaction \<Rightarrow> policy_evaluation" where
  "budget_denial policy budget currentAmount tx =
     (let projectedAmount = currentAmount + tx_amount tx in
      \<lparr>e_allowed = False, e_action = deny, e_triggeredRule = None,
       e_reason = BudgetExceeded (b_window budget) projectedAmount (b_maxAmount budget)
                    (b_currency budget),
       e_details = BudgetDetails (p_id policy) (p_name policy) (b_window budget) currentAmount
                     (tx_amount tx) projectedAmount (b_maxAmount budget) (b_currency budget)\<rparr>)"

fun budgets_loop ::
  "int \<Rightarrow> (string \<rightharpoonup> spend_bucket) \<Rightarrow> transaction \<Rightarrow> spend_policy \<Rightarrow> budget_limit list \<Rightarrow>
   policy_evaluation option" where
  "budgets_loop tz buckets tx policy [] = None"
| "budgets_loop tz buckets tx policy (budget # rest) =
     (if budget_skipped budget tx then budgets_loop tz buckets tx policy rest
      else
        (let bucketKey = getBudgetBucketKey tz (p_id policy) budget tx;
             currentAmount = bucket_amount buckets bucketKey;
             projectedAmount = currentAmount + tx_amount tx
         in if projectedAmount > b_maxAmount budget
            then Some (budget_denial policy budget currentAmount tx)
            else budgets_loop tz buckets tx policy rest))"

definition evaluateBudgets ::
  "int \<Rightarrow> policy_engine \<Rightarrow> transaction \<Rightarrow> spend_policy \<Rightarrow> policy_evaluation option" where
  "evaluateBudgets tz eng tx policy =
     budgets_loop tz (spendBuckets eng) tx policy (p_budgets policy)"

definition evaluateCooldown ::
  "int \<Rightarrow> policy_engine \<Rightarrow> transaction \<Rightarrow> spend_policy \<Rightarrow> policy_evaluation option" where
  "evaluateCooldown now eng tx policy =
     (case p_cooldownMs policy of
        None \<Rightarrow> None
      | Some cooldownMs \<Rightarrow>
          if cooldownMs = 0 then None
          else
            (case lastTransactionTime eng (tx_agentId tx) of
               None \<Rightarrow> None
             | Some lastTime \<Rightarrow>
                 (let elapsed = now - lastTime in
                  if elapsed < cooldownMs then
                    (let remainingMs = cooldownMs - elapsed in
                     Some \<lparr>e_allowed = False, e_action = deny, e_triggeredRule = None,
                           e_reason = CooldownActive remainingMs cooldownMs,
                           e_details = CooldownDetails (p_id policy) (p_name policy) elapsed
                                         cooldownMs remainingMs\<rparr>)
                  else None)))"

definition matchesConditions :: "transaction \<Rightarrow> policy_rule \<Rightarrow> bool" where
  "matchesConditions tx rule =
     (let cond = r_conditions rule in
      if has_length (c_agents cond) \<and>
         \<not> (\<exists>pattern \<in> set (the (c_agents cond)). matchesGlob (tx_agentId tx) pattern)
      then False
      else if has_length (c_recipients cond) \<and>
         \<not> (\<exists>pattern \<in> set (the (c_recipients cond)). matchesGlob (tx_recipient tx) pattern)
      then False
      else if has_length (c_services cond) \<and>
         (\<not> truthy (tx_service tx) \<or>
          \<not> (\<exists>s \<in> set (the (c_services cond)). Some s = tx_service tx))
      then False
      else if has_length (c_protocols cond) \<and>
         \<not> (\<exists>p \<in> set (the (c_protocols cond)). p = tx_protocol tx)
      then False
      else if c_minAmount cond \<noteq> None \<and> tx_amount tx < the (c_minAmount cond) then False
      else if c_maxAmount cond \<noteq> None \<and> tx_amount tx > the (c_maxAmount cond) then False
      else if has_length (c_currencies cond) \<and>
         \<not> (\<exists>c \<in> set (the (c_currencies cond)). c = tx_currency tx)
      then False
      else
        (case c_metadata cond of
           None \<Rightarrow> True
         | Some entries \<Rightarrow>
             list_all (\<lambda>(key, v). map_of (tx_metadata tx) key = Some v) entries))"

definition rule_decision :: "spend_policy \<Rightarrow> policy_rule \<Rightarrow> policy_evaluation" where
  "rule_decision policy rule =
     \<lparr>e_allowed = (r_action rule = allow \<or> r_action rule = flag),
      e_action = r_action rule, e_triggeredRule = Some rule,
      e_reason = RuleMatched (r_name rule) (r_action rule),
      e_details = RuleDetails (p_id policy) (p_name policy) (r_id rule) (r_name rule)
                    (r_action rule)\<rparr>"

definition default_allow :: "spend_policy \<Rightarrow> policy_evaluation" where
  "default_allow policy =
     \<lparr>e_allowed = True, e_action = allow, e_triggeredRule = None,
      e_reason = NoRulesMatched (p_name policy),
      e_details = PolicyDetails (p_id policy) (p_name policy)\<rparr>"

fun rules_loop :: "transaction \<Rightarrow> spend_policy \<Rightarrow> policy_rule list \<Rightarrow> policy_evaluation" where
  "rules_loop tx policy [] = default_allow policy"
| "rules_loop tx policy (rule # rest) =
     (if matchesConditions tx rule then rule_decision policy rule
      else rules_loop tx policy rest)"

definition evaluateRules :: "transaction \<Rightarrow> spend_policy \<Rightarrow> policy_evaluation" where
  "evaluateRules tx policy =
     (let sortedRules = sort_key r_priority (filter r_enabled (p_rules policy))
      in rules_loop tx policy sortedRules)"

text \<open>\<^verbatim>\<open>getMostRestrictive\<close> sorts the results by severity (the sort of JavaScript
  arrays is stable) and takes the first.\<close>

definition actionSeverity :: "policy_action \<Rightarrow> int" where
  "actionSeverity a = (case a of deny \<Rightarrow> 0 | require_approval \<Rightarrow> 1 | flag \<Rightarrow> 2 | allow \<Rightarrow> 3)"

definition getMostRestrictive :: "policy_evaluation list \<Rightarrow> policy_evaluation" where
  "getMostRestrictive results = hd (sort_key (\<lambda>r. actionSeverity (e_action r)) results)"

text \<open>The body of the loop of \<^verbatim>\<open>evaluate\<close> for one enabled policy: budgets, then
  cooldown, then rules.\<close>

definition evaluate_policy ::
  "int \<Rightarrow> int \<Rightarrow> policy_engine \<Rightarrow> transaction \<Rightarrow> spend_policy \<Rightarrow> policy_evaluation" where
  "evaluate_policy tz now eng tx policy =
     (case evaluateBudgets tz eng tx policy of
        Some budgetResult \<Rightarrow> budgetResult
      | None \<Rightarrow>
          (case evaluateCooldown now eng tx policy of
             Some cooldownResult \<Rightarrow> cooldownResult
           | None \<Rightarrow> evaluateRules tx policy))"

fun collect_results ::
  "int \<Rightarrow> int \<Rightarrow> policy_engine \<Rightarrow> transaction \<Rightarrow> spend_policy list \<Rightarrow> policy_evaluation list" where
  "collect_results tz now eng tx [] = []"
| "collect_results tz now eng tx (policy # rest) =
     (if \<not> p_enabled policy then collect_results tz now eng tx rest
      else evaluate_policy tz now eng tx policy # collect_results tz now eng tx rest)"

definition no_policies :: policy_evaluation where
  "no_policies =
     \<lparr>e_allowed = True, e_action = allow, e_triggeredRule = None,
      e_reason = NoPoliciesLoaded, e_details = NoDetails\<rparr>"

definition evaluate :: "int \<Rightarrow> int \<Rightarrow> policy_engine \<Rightarrow> transaction \<Rightarrow> policy_evaluation" where
  "evaluate tz now eng tx =
     (let results = collect_results tz now eng tx (map snd (policies eng))
      in if results = [] then no_policies else getMostRestrictive results)"





definition getCurrentSpend ::
  "int \<Rightarrow> policy_engine \<Rightarrow> string \<Rightarrow> budget_limit \<Rightarrow> int \<Rightarrow> rat \<times> nat" where
  "getCurrentSpend tz eng policyId budget referenceTime =
     (let windowKey = getWindowKey tz (b_window budget) referenceTime;
          scope = getBudgetScope budget;
          bucketKey = policyId @ '':'' @ scope @ '':'' @ window_name (b_window budget) @ '':'' @ windowKey
      in case spendBuckets eng bucketKey of
           None \<Rightarrow> (0, 0)
         | Some bucket \<Rightarrow> (bk_amount bucket, bk_count bucket))"

subsection \<open>Notions of the specification\<close>


text \<open>The decisions of the enabled policies, in the order in which the policies were
  loaded.\<close>

definition policy_decisions ::
  "int \<Rightarrow> int \<Rightarrow> policy_engine \<Rightarrow> transaction \<Rightarrow> policy_evaluation list" where
  "policy_decisions tz now eng tx =
     map (evaluate_policy tz now eng tx) (filter p_enabled (getPolicies eng))"


subsection \<open>Scenarios of the test suite\<close>

text \<open>The rules \<^verbatim>\<open>allowAll()\<close> and \<^verbatim>\<open>blockAbove(amount, currency)\<close> of
  \<^verbatim>\<open>rules.ts\<close> (their generated ids and names are shortened), the transaction of
  \<^verbatim>\<open>makeTx\<close>, and the policies and engines of \<^verbatim>\<open>policy.test.ts\<close>.\<close>

definition no_conditions :: policy_condition where
  "no_conditions =
     \<lparr>c_agents = None, c_recipients = None, c_services = None, c_protocols = None,
      c_minAmount = None, c_maxAmount = None, c_currencies = None, c_metadata = None\<rparr>"

definition allowAll :: policy_rule where
  "allowAll =
     \<lparr>r_id = ''allow-all'', r_name = ''Allow all (catch-all)'', r_enabled = True,
      r_priority = 9999, r_conditions = no_conditions, r_action = allow\<rparr>"

definition blockAbove :: "rat \<Rightarrow> string \<Rightarrow> policy_rule" where
  "blockAbove amount currency =
     \<lparr>r_id = ''block-above'', r_name = ''Block transactions above'', r_enabled = True,
      r_priority = 10,
      r_conditions = no_conditions\<lparr>c_minAmount := Some amount, c_currencies := Some [currency]\<rparr>,
      r_action = deny\<rparr>"

definition makeTx :: "rat \<Rightarrow> int \<Rightarrow> transaction" where
  "makeTx amount createdAt =
     \<lparr>tx_id = ''ps_1'', tx_agentId = ''agent-1'', tx_recipient = ''https://api.openai.com'',
      tx_amount = amount, tx_currency = ''USDC'', tx_purpose = ''test'', tx_protocol = x402,
      tx_status = pending, tx_service = None, tx_createdAt = createdAt,
      tx_updatedAt = createdAt, tx_protocolTxId = None, tx_metadata = []\<rparr>"



definition permissive_policy :: spend_policy where
  "permissive_policy =
     \<lparr>p_id = ''permissive'', p_name = ''Permissive'', p_enabled = True, p_rules = [allowAll],
      p_budgets = [], p_cooldownMs = None\<rparr>"

definition strict_policy :: spend_policy where
  "strict_policy =
     \<lparr>p_id = ''strict'', p_name = ''Strict'', p_enabled = True,
      p_rules = [blockAbove 50 ''USDC'', allowAll], p_budgets = [], p_cooldownMs = None\<rparr>"



definition two_policy_engine :: policy_engine where
  "two_policy_engine = loadPolicy (loadPolicy new_engine permissive_policy) strict_policy"


section \<open>Properties of the Policy Engine\<close>

subsection \<open>Budget check\<close>





subsection \<open>Cooldown check\<close>



subsection \<open>Combining the policies\<close>

lemma collect_results_map:
  "collect_results tz now eng tx ps = map (evaluate_policy tz now eng tx) (filter p_enabled ps)"
  by (induction ps) simp_all

lemma hd_sort_key_least:
  assumes "xs \<noteq> []"
  shows "hd (sort_key f xs) \<in> set xs \<and> (\<forall>x \<in> set xs. f (hd (sort_key f xs)) \<le> f x)"
proof -
  obtain h t where ht: "sort_key f xs = h # t"
    using assms by (cases "sort_key f xs") (auto dest: arg_cong [where f = length])
  have s: "set (h # t) = set xs"
    using ht set_sort [of f xs] by simp
  have "sorted (map f (h # t))"
    using ht sorted_sort_key [of f xs] by simp
  then have "\<forall>x \<in> set (h # t). f h \<le> f x"
    by auto
  with s show ?thesis
    unfolding ht by auto
qed

lemma filter_Cons_find: "filter P xs = y # ys \<Longrightarrow> find P xs = Some y"
  by (induction xs) (auto split: if_splits)

lemma hd_sort_key_first:
  assumes "xs \<noteq> []"
  shows "find (\<lambda>x. f x = f (hd (sort_key f xs))) xs = Some (hd (sort_key f xs))"
proof -
  obtain h t where ht: "sort_key f xs = h # t"
    using assms by (cases "sort_key f xs") (auto dest: arg_cong [where f = length])
  have "filter (\<lambda>y. f y = f h) xs = filter (\<lambda>y. f y = f h) (h # t)"
    using sort_key_stable [of f "f h" xs] ht by simp
  then have "filter (\<lambda>y. f y = f h) xs = h # filter (\<lambda>y. f y = f h) t"
    by simp
  then show ?thesis
    unfolding ht by (simp add: filter_Cons_find)
qed

text \<open>
  C5. \<^verbatim>\<open>evaluate\<close> returns one of the decisions of the enabled policies, and one of
  least severity rank among them (deny 0, require_approval 1, flag 2, allow 3): the
  first of these in the order of the policies. When there is no decision, in particular
  when no policy is loaded, it returns the allow decision whose reason is
  \<^verbatim>\<open>No policies loaded\<close>.
\<close>

theorem evaluate_most_restrictive:
  "(policy_decisions tz now eng tx \<noteq> [] \<longrightarrow>
      evaluate tz now eng tx \<in> set (policy_decisions tz now eng tx) \<and>
      (\<forall>d \<in> set (policy_decisions tz now eng tx).
          actionSeverity (e_action (evaluate tz now eng tx)) \<le> actionSeverity (e_action d)) \<and>
      find (\<lambda>d. actionSeverity (e_action d) = actionSeverity (e_action (evaluate tz now eng tx)))
        (policy_decisions tz now eng tx) = Some (evaluate tz now eng tx))
   \<and> (policy_decisions tz now eng tx = [] \<longrightarrow> evaluate tz now eng tx = no_policies)
   \<and> (policies eng = [] \<longrightarrow>
        evaluate tz now eng tx =
          \<lparr>e_allowed = True, e_action = allow, e_triggeredRule = None,
           e_reason = NoPoliciesLoaded, e_details = NoDetails\<rparr>)
   \<and> actionSeverity deny = 0 \<and> actionSeverity require_approval = 1
   \<and> actionSeverity flag = 2 \<and> actionSeverity allow = 3"
proof -
  let ?ds = "policy_decisions tz now eng tx"
  have r: "collect_results tz now eng tx (map snd (policies eng)) = ?ds"
    by (simp add: collect_results_map policy_decisions_def getPolicies_def)
  have e: "?ds \<noteq> [] \<Longrightarrow> evaluate tz now eng tx = hd (sort_key (\<lambda>r. actionSeverity (e_action r)) ?ds)"
    by (simp add: evaluate_def r getMostRestrictive_def)
  have n: "?ds = [] \<Longrightarrow> evaluate tz now eng tx = no_policies"
    by (simp add: evaluate_def r)
  have p: "policies eng = [] \<Longrightarrow> ?ds = []"
    by (simp add: policy_decisions_def getPolicies_def)
  show ?thesis
    using e n p
      hd_sort_key_least [of ?ds "\<lambda>r. actionSeverity (e_action r)"]
      hd_sort_key_first [of ?ds "\<lambda>r. actionSeverity (e_action r)"]
    by (auto simp: actionSeverity_def no_policies_def)
qed

text \<open>C5 at the scenario "picks the most restrictive action across policies": a
  permissive and a strict policy are loaded, and 75 USDC are above the 50 USDC the strict
  policy blocks.\<close>

theorem evaluate_most_restrictive_witness:
  "e_action (evaluate 0 0 two_policy_engine (makeTx 75 0)) = deny \<and>
   evaluate 0 0 new_engine (makeTx 75 0) = no_policies"
proof -
  have d: "policy_decisions 0 0 two_policy_engine (makeTx 75 0) =
             [evaluate_policy 0 0 two_policy_engine (makeTx 75 0) permissive_policy,
              evaluate_policy 0 0 two_policy_engine (makeTx 75 0) strict_policy]"
    by (simp add: policy_decisions_def getPolicies_def two_policy_engine_def loadPolicy_def
        new_engine_def permissive_policy_def strict_policy_def)
  have s: "e_action (evaluate_policy 0 0 two_policy_engine (makeTx 75 0) strict_policy) = deny"
    by code_simp
  have "actionSeverity (e_action (evaluate 0 0 two_policy_engine (makeTx 75 0))) \<le> 0"
    using evaluate_most_restrictive [of 0 0 two_policy_engine "makeTx 75 0"]
    by (simp add: d s)
  then have a: "e_action (evaluate 0 0 two_policy_engine (makeTx 75 0)) = deny"
    by (cases "e_action (evaluate 0 0 two_policy_engine (makeTx 75 0))")
       (simp_all add: actionSeverity_def)
  have "policies new_engine = []"
    by (simp add: new_engine_def)
  then have b: "evaluate 0 0 new_engine (makeTx 75 0) = no_policies"
    using evaluate_most_restrictive [of 0 0 new_engine "makeTx 75 0"]
    by (simp add: no_policies_def)
  from a b show ?thesis by simp
qed

subsection \<open>Recording a transaction\<close>







section \<open>Spend Ledger (packages/observe tracker.ts)\<close>

text \<open>
  The tracker keeps a primary \<^verbatim>\<open>Map\<close> from transaction id to transaction, three
  secondary indices (a \<^verbatim>\<open>Map\<close> from a key to a \<^verbatim>\<open>Set\<close> of ids) and the array
  \<^verbatim>\<open>chronological\<close>. A JavaScript \<^verbatim>\<open>Map\<close> iterates in insertion order and
  \<^verbatim>\<open>set\<close> on an existing key keeps its position, which is what an association list
  with \<^const>\<open>AList.update\<close> does; a \<^verbatim>\<open>Set\<close> is a list without duplicates in
  insertion order. Transactions are values: the stored transaction is the one that was
  passed to \<^verbatim>\<open>record\<close>.
\<close>

type_synonym id_index = "(string \<times> string list) list"

record spend_tracker =
  transactions :: "(string \<times> transaction) list"
  byAgent :: id_index
  byService :: id_index
  byRecipient :: id_index
  chronological :: "string list"

definition new_tracker :: spend_tracker where
  "new_tracker =
     \<lparr>transactions = [], byAgent = [], byService = [], byRecipient = [], chronological = []\<rparr>"

definition set_add :: "'a list \<Rightarrow> 'a \<Rightarrow> 'a list" where
  "set_add s x = (if x \<in> set s then s else s @ [x])"

definition addToIndex :: "id_index \<Rightarrow> string \<Rightarrow> string \<Rightarrow> id_index" where
  "addToIndex index key txId =
     (case map_of index key of
        None \<Rightarrow> AList.update key (set_add [] txId) index
      | Some s \<Rightarrow> AList.update key (set_add s txId) index)"

definition record_tx :: "spend_tracker \<Rightarrow> transaction \<Rightarrow> spend_tracker" where
  "record_tx st tx =
     (let isUpdate = (map_of (transactions st) (tx_id tx) \<noteq> None);
          st1 = st\<lparr>transactions := AList.update (tx_id tx) tx (transactions st)\<rparr>
      in if \<not> isUpdate then
           st1\<lparr>byAgent := addToIndex (byAgent st1) (tx_agentId tx) (tx_id tx),
               byRecipient := addToIndex (byRecipient st1) (tx_recipient tx) (tx_id tx),
               byService :=
                 (if truthy (tx_service tx)
                  then addToIndex (byService st1) (the (tx_service tx)) (tx_id tx)
                  else byService st1),
               chronological := chronological st1 @ [tx_id tx]\<rparr>
         else st1)"

definition get_tx :: "spend_tracker \<Rightarrow> string \<Rightarrow> transaction option" where
  "get_tx st txId = map_of (transactions st) txId"

definition resolveIds :: "spend_tracker \<Rightarrow> string list \<Rightarrow> transaction list" where
  "resolveIds st ids = List.map_filter (\<lambda>txId. map_of (transactions st) txId) ids"

definition getByAgent :: "spend_tracker \<Rightarrow> string \<Rightarrow> transaction list" where
  "getByAgent st agentId =
     (case map_of (byAgent st) agentId of
        None \<Rightarrow> []
      | Some ids \<Rightarrow> rev (resolveIds st ids))"

text \<open>A sequence of calls of \<^verbatim>\<open>record\<close>, in order.\<close>

fun record_all :: "spend_tracker \<Rightarrow> transaction list \<Rightarrow> spend_tracker" where
  "record_all st [] = st"
| "record_all st (tx # txs) = record_all (record_tx st tx) txs"

text \<open>The ids an index holds under a key, and the ids of the stored transactions that
  satisfy a predicate.\<close>

definition index_ids :: "id_index \<Rightarrow> string \<Rightarrow> string set" where
  "index_ids index key = (case map_of index key of None \<Rightarrow> {} | Some s \<Rightarrow> set s)"

definition stored_ids :: "(string \<times> transaction) list \<Rightarrow> (transaction \<Rightarrow> bool) \<Rightarrow> string set" where
  "stored_ids ts P = {txId. \<exists>tx. map_of ts txId = Some tx \<and> P tx}"

text \<open>Every call of the sequence that hits an id already stored leaves the agent, the
  recipient and the service of the stored transaction as they are (an update of the
  status, the amount or the timestamps).\<close>

fun updates_keep_keys :: "spend_tracker \<Rightarrow> transaction list \<Rightarrow> bool" where
  "updates_keep_keys st [] = True"
| "updates_keep_keys st (tx # txs) =
     ((case map_of (transactions st) (tx_id tx) of
         None \<Rightarrow> True
       | Some old \<Rightarrow>
           tx_agentId old = tx_agentId tx \<and> tx_recipient old = tx_recipient tx \<and>
           tx_service old = tx_service tx)
      \<and> updates_keep_keys (record_tx st tx) txs)"

subsection \<open>Invariants of the ledger\<close>

definition tracker_inv :: "spend_tracker \<Rightarrow> bool" where
  "tracker_inv st \<longleftrightarrow>
     distinct (chronological st) \<and>
     set (chronological st) = dom (map_of (transactions st)) \<and>
     (\<forall>k. index_ids (byAgent st) k = stored_ids (transactions st) (\<lambda>tx. tx_agentId tx = k)) \<and>
     (\<forall>k. index_ids (byRecipient st) k =
            stored_ids (transactions st) (\<lambda>tx. tx_recipient tx = k)) \<and>
     (\<forall>k. index_ids (byService st) k =
            stored_ids (transactions st) (\<lambda>tx. tx_service tx = Some k \<and> k \<noteq> []))"

lemma index_ids_addToIndex:
  "index_ids (addToIndex index key txId) k =
     (if k = key then insert txId (index_ids index key) else index_ids index k)"
  by (auto simp: index_ids_def addToIndex_def set_add_def update_conv' split: option.splits)

lemma stored_ids_insert:
  assumes "map_of ts (tx_id tx) = None"
  shows "stored_ids (AList.update (tx_id tx) tx ts) P =
           (if P tx then insert (tx_id tx) (stored_ids ts P) else stored_ids ts P)"
  using assms by (auto simp: stored_ids_def update_conv')

lemma stored_ids_update:
  assumes "map_of ts (tx_id tx) = Some old" "P old = P tx"
  shows "stored_ids (AList.update (tx_id tx) tx ts) P = stored_ids ts P"
  using assms by (auto simp: stored_ids_def update_conv')

lemma tracker_inv_new: "tracker_inv new_tracker"
  by (simp add: tracker_inv_def new_tracker_def index_ids_def stored_ids_def)

lemma chronological_record_tx:
  "chronological (record_tx st tx) =
     (if map_of (transactions st) (tx_id tx) = None then chronological st @ [tx_id tx]
      else chronological st)"
  by (simp add: record_tx_def Let_def)

lemma transactions_record_tx:
  "transactions (record_tx st tx) = AList.update (tx_id tx) tx (transactions st)"
  by (simp add: record_tx_def Let_def)

lemma chronological_inv_record_tx:
  assumes "distinct (chronological st)"
    and "set (chronological st) = dom (map_of (transactions st))"
  shows "distinct (chronological (record_tx st tx)) \<and>
         set (chronological (record_tx st tx)) = dom (map_of (transactions (record_tx st tx)))"
  using assms
  by (auto simp: chronological_record_tx transactions_record_tx update_conv' dom_def)

lemma record_tx_insert:
  assumes "map_of (transactions st) (tx_id tx) = None"
  shows "byAgent (record_tx st tx) = addToIndex (byAgent st) (tx_agentId tx) (tx_id tx)"
    and "byRecipient (record_tx st tx) = addToIndex (byRecipient st) (tx_recipient tx) (tx_id tx)"
    and "byService (record_tx st tx) =
           (if truthy (tx_service tx)
            then addToIndex (byService st) (the (tx_service tx)) (tx_id tx) else byService st)"
  using assms by (simp_all add: record_tx_def Let_def)

lemma record_tx_update:
  assumes "map_of (transactions st) (tx_id tx) = Some old"
  shows "byAgent (record_tx st tx) = byAgent st"
    and "byRecipient (record_tx st tx) = byRecipient st"
    and "byService (record_tx st tx) = byService st"
  using assms by (simp_all add: record_tx_def Let_def)

lemma tracker_inv_record_tx:
  assumes inv: "tracker_inv st"
    and keep: "case map_of (transactions st) (tx_id tx) of
                 None \<Rightarrow> True
               | Some old \<Rightarrow>
                   tx_agentId old = tx_agentId tx \<and> tx_recipient old = tx_recipient tx \<and>
                   tx_service old = tx_service tx"
  shows "tracker_inv (record_tx st tx)"
proof (cases "map_of (transactions st) (tx_id tx)")
  case None
  have chrono: "distinct (chronological (record_tx st tx)) \<and>
         set (chronological (record_tx st tx)) = dom (map_of (transactions (record_tx st tx)))"
    using inv by (intro chronological_inv_record_tx) (simp_all add: tracker_inv_def)
  have agent: "index_ids (byAgent (record_tx st tx)) k =
      stored_ids (transactions (record_tx st tx)) (\<lambda>tx. tx_agentId tx = k)" for k
    using inv None
    by (simp add: record_tx_insert transactions_record_tx index_ids_addToIndex stored_ids_insert
        tracker_inv_def)
  have recipient: "index_ids (byRecipient (record_tx st tx)) k =
      stored_ids (transactions (record_tx st tx)) (\<lambda>tx. tx_recipient tx = k)" for k
    using inv None
    by (simp add: record_tx_insert transactions_record_tx index_ids_addToIndex stored_ids_insert
        tracker_inv_def)
  have service: "index_ids (byService (record_tx st tx)) k =
      stored_ids (transactions (record_tx st tx)) (\<lambda>tx. tx_service tx = Some k \<and> k \<noteq> [])" for k
    using inv None
    by (cases "tx_service tx")
       (auto simp: record_tx_insert transactions_record_tx index_ids_addToIndex stored_ids_insert
        tracker_inv_def truthy_def)
  show ?thesis
    unfolding tracker_inv_def using chrono agent recipient service by blast
next
  case (Some old)
  have chrono: "distinct (chronological (record_tx st tx)) \<and>
         set (chronological (record_tx st tx)) = dom (map_of (transactions (record_tx st tx)))"
    using inv by (intro chronological_inv_record_tx) (simp_all add: tracker_inv_def)
  have k: "tx_agentId old = tx_agentId tx" "tx_recipient old = tx_recipient tx"
    "tx_service old = tx_service tx"
    using keep Some by simp_all
  have agent: "index_ids (byAgent (record_tx st tx)) k =
      stored_ids (transactions (record_tx st tx)) (\<lambda>tx. tx_agentId tx = k)" for k
    using inv stored_ids_update [OF Some, of "\<lambda>tx. tx_agentId tx = k"] k
    by (simp add: record_tx_update [OF Some] transactions_record_tx tracker_inv_def)
  have recipient: "index_ids (byRecipient (record_tx st tx)) k =
      stored_ids (transactions (record_tx st tx)) (\<lambda>tx. tx_recipient tx = k)" for k
    using inv stored_ids_update [OF Some, of "\<lambda>tx. tx_recipient tx = k"] k
    by (simp add: record_tx_update [OF Some] transactions_record_tx tracker_inv_def)
  have service: "index_ids (byService (record_tx st tx)) k =
      stored_ids (transactions (record_tx st tx)) (\<lambda>tx. tx_service tx = Some k \<and> k \<noteq> [])" for k
    using inv stored_ids_update [OF Some, of "\<lambda>tx. tx_service tx = Some k \<and> k \<noteq> []"] k
    by (simp add: record_tx_update [OF Some] transactions_record_tx tracker_inv_def)
  show ?thesis
    unfolding tracker_inv_def using chrono agent recipient service by blast
qed

lemma tracker_inv_record_all:
  "tracker_inv st \<Longrightarrow> updates_keep_keys st txs \<Longrightarrow> tracker_inv (record_all st txs)"
proof (induction txs arbitrary: st)
  case Nil
  then show ?case by simp
next
  case (Cons tx txs)
  from Cons.prems have "tracker_inv (record_tx st tx)"
    by (intro tracker_inv_record_tx) simp_all
  with Cons.prems Cons.IH [of "record_tx st tx"] show ?case
    by simp
qed

lemma chronological_record_all:
  "distinct (chronological st) \<Longrightarrow> set (chronological st) = dom (map_of (transactions st)) \<Longrightarrow>
   distinct (chronological (record_all st txs)) \<and>
   set (chronological (record_all st txs)) = dom (map_of (transactions (record_all st txs)))"
proof (induction txs arbitrary: st)
  case Nil
  then show ?case by simp
next
  case (Cons tx txs)
  from chronological_inv_record_tx [OF Cons.prems, of tx] Cons.IH [of "record_tx st tx"]
  show ?case by simp
qed

subsection \<open>A ledger scenario\<close>

definition ledger_tx :: "string \<Rightarrow> string \<Rightarrow> transaction_status \<Rightarrow> transaction" where
  "ledger_tx txId agentId status =
     \<lparr>tx_id = txId, tx_agentId = agentId, tx_recipient = ''https://api.openai.com'',
      tx_amount = 10, tx_currency = ''USDC'', tx_purpose = ''test'', tx_protocol = x402,
      tx_status = status, tx_service = Some ''openai'', tx_createdAt = 0, tx_updatedAt = 0,
      tx_protocolTxId = None, tx_metadata = []\<rparr>"

definition status_updates :: "transaction list" where
  "status_updates =
     [ledger_tx ''ps_1'' ''agent-1'' pending, ledger_tx ''ps_2'' ''agent-1'' pending,
      ledger_tx ''ps_1'' ''agent-1'' completed]"

definition agent_change :: "transaction list" where
  "agent_change = [ledger_tx ''ps_1'' ''agent-1'' pending, ledger_tx ''ps_1'' ''agent-2'' pending]"

text \<open>
  C4 (as amended). After any sequence of calls of \<^verbatim>\<open>record\<close> on a fresh ledger no id
  stands twice in the chronological list, and the list holds exactly the stored ids. If
  every call that updates an id already stored keeps the agent, the recipient and the
  service of the stored transaction, then each index holds under every key exactly the
  ids of the stored transactions with that agent, that recipient, or that non-empty
  service (a transaction with no service or with the empty service is in no index of the
  services).
\<close>

theorem record_all_invariants:
  "distinct (chronological (record_all new_tracker txs)) \<and>
   set (chronological (record_all new_tracker txs)) =
     dom (map_of (transactions (record_all new_tracker txs))) \<and>
   (updates_keep_keys new_tracker txs \<longrightarrow>
      (\<forall>k. index_ids (byAgent (record_all new_tracker txs)) k =
            stored_ids (transactions (record_all new_tracker txs)) (\<lambda>tx. tx_agentId tx = k)) \<and>
      (\<forall>k. index_ids (byRecipient (record_all new_tracker txs)) k =
            stored_ids (transactions (record_all new_tracker txs)) (\<lambda>tx. tx_recipient tx = k)) \<and>
      (\<forall>k. index_ids (byService (record_all new_tracker txs)) k =
            stored_ids (transactions (record_all new_tracker txs))
              (\<lambda>tx. tx_service tx = Some k \<and> k \<noteq> [])))"
proof -
  have c: "distinct (chronological (record_all new_tracker txs)) \<and>
      set (chronological (record_all new_tracker txs)) =
        dom (map_of (transactions (record_all new_tracker txs)))"
    by (rule chronological_record_all) (simp_all add: new_tracker_def)
  have "tracker_inv (record_all new_tracker txs)" if "updates_keep_keys new_tracker txs"
    using tracker_inv_new that by (rule tracker_inv_record_all)
  with c show ?thesis
    unfolding tracker_inv_def by blast
qed

theorem record_all_invariants_witness:
  "updates_keep_keys new_tracker status_updates \<and>
   chronological (record_all new_tracker status_updates) = [''ps_1'', ''ps_2''] \<and>
   index_ids (byAgent (record_all new_tracker status_updates)) ''agent-1'' = {''ps_1'', ''ps_2''} \<and>
   stored_ids (transactions (record_all new_tracker status_updates))
     (\<lambda>tx. tx_agentId tx = ''agent-1'') = {''ps_1'', ''ps_2''}"
proof -
  have k: "updates_keep_keys new_tracker status_updates"
    by code_simp
  have c: "chronological (record_all new_tracker status_updates) = [''ps_1'', ''ps_2'']"
    by code_simp
  have a: "index_ids (byAgent (record_all new_tracker status_updates)) ''agent-1'' =
             {''ps_1'', ''ps_2''}"
    by code_simp
  from record_all_invariants [of status_updates] k
  have "index_ids (byAgent (record_all new_tracker status_updates)) ''agent-1'' =
          stored_ids (transactions (record_all new_tracker status_updates))
            (\<lambda>tx. tx_agentId tx = ''agent-1'')"
    by blast
  with k c a show ?thesis
    by simp
qed

text \<open>
  C4 as stated fails when an update changes an indexed field: the transaction
  \<^verbatim>\<open>ps_1\<close> is recorded for \<^verbatim>\<open>agent-1\<close> and recorded again for \<^verbatim>\<open>agent-2\<close>. The
  index of the agents still holds it under \<^verbatim>\<open>agent-1\<close> and has no entry for
  \<^verbatim>\<open>agent-2\<close>, while the stored transaction belongs to \<^verbatim>\<open>agent-2\<close>.
\<close>

theorem record_agent_change_counterexample:
  "index_ids (byAgent (record_all new_tracker agent_change)) ''agent-1'' = {''ps_1''} \<and>
   stored_ids (transactions (record_all new_tracker agent_change))
     (\<lambda>tx. tx_agentId tx = ''agent-1'') = {} \<and>
   index_ids (byAgent (record_all new_tracker agent_change)) ''agent-2'' = {} \<and>
   stored_ids (transactions (record_all new_tracker agent_change))
     (\<lambda>tx. tx_agentId tx = ''agent-2'') = {''ps_1''}"
proof -
  have t: "transactions (record_all new_tracker agent_change) =
             [(''ps_1'', ledger_tx ''ps_1'' ''agent-2'' pending)]"
    by (simp add: agent_change_def record_tx_def new_tracker_def Let_def ledger_tx_def)
  have i: "byAgent (record_all new_tracker agent_change) = [(''agent-1'', [''ps_1''])]"
    by (simp add: agent_change_def record_tx_def new_tracker_def Let_def ledger_tx_def
        addToIndex_def set_add_def truthy_def)
  show ?thesis
    unfolding t i by (auto simp: index_ids_def stored_ids_def ledger_tx_def)
qed

section \<open>Provenance log and Dispute Manager (packages/protect)\<close>

text \<open>
  Timestamps are produced by \<^verbatim>\<open>new Date().toISOString()\<close>; they are modelled by the
  time value they print (milliseconds since the epoch), passed in as \<open>now\<close>. The
  identifier that \<^verbatim>\<open>generateDisputeId()\<close> draws from the clock and the random number
  generator is a parameter, too. \<^verbatim>\<open>query\<close> sorts by \<^verbatim>\<open>createdAt\<close> with
  \<^verbatim>\<open>localeCompare\<close>, newest first; on the timestamps that \<^verbatim>\<open>toISOString\<close> prints for
  years of four digits this is the order of the time values. Status listeners and the logger are callbacks outside
  the manager and are left out, and so is the number of records that \<^verbatim>\<open>file\<close> writes
  into the description of the evidence it pulls from the provenance log.
\<close>

datatype provenance_stage =
  intent | policy_check | approval | execution | settlement | dispute

datatype provenance_outcome = pass | fail | outcome_pending

datatype provenance_details =
  DisputeDetails string string rat | OtherDetails "(string \<times> string) list"

record provenance_record =
  pr_transactionId :: string
  pr_stage :: provenance_stage
  pr_timestamp :: int
  pr_action :: string
  pr_outcome :: provenance_outcome
  pr_details :: provenance_details

type_synonym transaction_provenance = "(string \<times> provenance_record list) list"

definition addRecord ::
  "transaction_provenance \<Rightarrow> string \<Rightarrow> provenance_record \<Rightarrow> transaction_provenance" where
  "addRecord plog txId r =
     (case map_of plog txId of
        None \<Rightarrow> AList.update txId [r] plog
      | Some chain \<Rightarrow> AList.update txId (chain @ [r]) plog)"

definition recordDispute ::
  "transaction_provenance \<Rightarrow> string \<Rightarrow> int \<Rightarrow> provenance_details \<Rightarrow> transaction_provenance" where
  "recordDispute plog txId now details =
     addRecord plog txId
       \<lparr>pr_transactionId = txId, pr_stage = dispute, pr_timestamp = now,
        pr_action = ''Dispute filed against transaction'', pr_outcome = outcome_pending,
        pr_details = details\<rparr>"

definition getChain :: "transaction_provenance \<Rightarrow> string \<Rightarrow> provenance_record list" where
  "getChain plog txId = (case map_of plog txId of None \<Rightarrow> [] | Some chain \<Rightarrow> chain)"

datatype dispute_status =
  status_open | investigating | resolved_refunded | resolved_denied | resolved_partial | escalated

datatype resolved_status = to_refunded | to_denied | to_partial

definition status_of :: "resolved_status \<Rightarrow> dispute_status" where
  "status_of r =
     (case r of to_refunded \<Rightarrow> resolved_refunded | to_denied \<Rightarrow> resolved_denied
      | to_partial \<Rightarrow> resolved_partial)"

datatype liability_attribution =
  liable_agent | liable_service_provider | liable_protocol | liable_user | undetermined

datatype evidence_type =
  transaction_log | agent_trace | provenance_evidence | user_statement | system_log

text \<open>The data of an evidence record is opaque, except that the evidence pulled from
  the provenance log holds the chain of the transaction itself (the array, not a copy).\<close>

datatype evidence_data = ChainOf string | Opaque string

record dispute_evidence =
  ev_type :: evidence_type
  ev_description :: string
  ev_data :: evidence_data
  ev_addedAt :: int

record dispute_case =
  d_id :: string
  d_transactionId :: string
  d_agentId :: string
  d_reason :: string
  d_status :: dispute_status
  d_liability :: liability_attribution
  d_requestedAmount :: rat
  d_resolvedAmount :: "rat option"
  d_createdAt :: int
  d_updatedAt :: int
  d_resolvedAt :: "int option"
  d_evidence :: "dispute_evidence list"

record file_dispute_input =
  in_transactionId :: string
  in_agentId :: string
  in_reason :: string
  in_requestedAmount :: rat
  in_evidence :: "dispute_evidence list option"

record dispute_filter =
  f_status :: "dispute_status option"
  f_agentId :: "string option"
  f_transactionId :: "string option"
  f_liability :: "liability_attribution option"
  f_limit :: "nat option"

record dispute_manager =
  disputes :: "(string \<times> dispute_case) list"
  byTransaction :: "(string \<times> string) list"
  disputesByAgent :: id_index
  provenance :: "transaction_provenance option"

datatype dispute_error =
    ActiveDisputeExists string string
  | DisputeNotFound string
  | ClosedDispute string

definition new_manager :: "transaction_provenance option \<Rightarrow> dispute_manager" where
  "new_manager prov =
     \<lparr>disputes = [], byTransaction = [], disputesByAgent = [], provenance = prov\<rparr>"

definition isClosed :: "dispute_status \<Rightarrow> bool" where
  "isClosed status \<longleftrightarrow>
     status = resolved_refunded \<or> status = resolved_denied \<or> status = resolved_partial"

text \<open>\<^verbatim>\<open>file\<close>: the check for an active dispute of the transaction throws before
  anything is written.\<close>

definition active_dispute :: "dispute_manager \<Rightarrow> string \<Rightarrow> string option" where
  "active_dispute m txId =
     (case map_of (byTransaction m) txId of
        None \<Rightarrow> None
      | Some existing \<Rightarrow>
          if existing = [] then None
          else
            (case map_of (disputes m) existing of
               None \<Rightarrow> None
             | Some existingCase \<Rightarrow>
                 if \<not> isClosed (d_status existingCase) then Some existing else None))"

definition file_dispute ::
  "dispute_manager \<Rightarrow> file_dispute_input \<Rightarrow> string \<Rightarrow> int \<Rightarrow>
   (dispute_error + dispute_case) \<times> dispute_manager" where
  "file_dispute m input newId now =
     (case active_dispute m (in_transactionId input) of
        Some existing \<Rightarrow> (Inl (ActiveDisputeExists existing (in_transactionId input)), m)
      | None \<Rightarrow>
          (let pulled =
                 (case provenance m of
                    None \<Rightarrow> []
                  | Some plog \<Rightarrow>
                      if getChain plog (in_transactionId input) \<noteq> []
                      then [\<lparr>ev_type = transaction_log,
                             ev_description = ''Transaction provenance chain'',
                             ev_data = ChainOf (in_transactionId input), ev_addedAt = now\<rparr>]
                      else []);
               evidence = pulled @ (case in_evidence input of None \<Rightarrow> [] | Some es \<Rightarrow> es);
               dispute =
                 \<lparr>d_id = newId, d_transactionId = in_transactionId input,
                  d_agentId = in_agentId input, d_reason = in_reason input,
                  d_status = status_open, d_liability = undetermined,
                  d_requestedAmount = in_requestedAmount input, d_resolvedAmount = None,
                  d_createdAt = now, d_updatedAt = now, d_resolvedAt = None,
                  d_evidence = evidence\<rparr>
           in (Inr dispute,
               m\<lparr>disputes := AList.update newId dispute (disputes m),
                  byTransaction := AList.update (in_transactionId input) newId (byTransaction m),
                  disputesByAgent := addToIndex (disputesByAgent m) (in_agentId input) newId,
                  provenance :=
                    map_option
                      (\<lambda>plog. recordDispute plog (in_transactionId input) now
                         (DisputeDetails newId (in_reason input) (in_requestedAmount input)))
                      (provenance m)\<rparr>)))"

definition addEvidence ::
  "dispute_manager \<Rightarrow> string \<Rightarrow> dispute_evidence \<Rightarrow> int \<Rightarrow>
   (dispute_error + unit) \<times> dispute_manager" where
  "addEvidence m disputeId evidence now =
     (case map_of (disputes m) disputeId of
        None \<Rightarrow> (Inl (DisputeNotFound disputeId), m)
      | Some d \<Rightarrow>
          if isClosed (d_status d) then (Inl (ClosedDispute disputeId), m)
          else
            (Inr (),
             m\<lparr>disputes :=
                  AList.update disputeId
                    (d\<lparr>d_evidence := d_evidence d @ [evidence], d_updatedAt := now\<rparr>)
                    (disputes m)\<rparr>))"

definition updateStatus ::
  "dispute_manager \<Rightarrow> string \<Rightarrow> dispute_status \<Rightarrow> int \<Rightarrow>
   (dispute_error + unit) \<times> dispute_manager" where
  "updateStatus m disputeId newStatus now =
     (case map_of (disputes m) disputeId of
        None \<Rightarrow> (Inl (DisputeNotFound disputeId), m)
      | Some d \<Rightarrow>
          (Inr (),
           m\<lparr>disputes :=
                AList.update disputeId (d\<lparr>d_status := newStatus, d_updatedAt := now\<rparr>)
                  (disputes m)\<rparr>))"

definition resolve ::
  "dispute_manager \<Rightarrow> string \<Rightarrow> resolved_status \<Rightarrow> liability_attribution \<Rightarrow> rat option \<Rightarrow>
   int \<Rightarrow> (dispute_error + dispute_case) \<times> dispute_manager" where
  "resolve m disputeId status liability resolvedAmount now =
     (case map_of (disputes m) disputeId of
        None \<Rightarrow> (Inl (DisputeNotFound disputeId), m)
      | Some d \<Rightarrow>
          (let d' = d\<lparr>d_status := status_of status, d_liability := liability,
                      d_resolvedAmount := resolvedAmount, d_resolvedAt := Some now,
                      d_updatedAt := now\<rparr>
           in (Inr d', m\<lparr>disputes := AList.update disputeId d' (disputes m)\<rparr>)))"

definition get_dispute :: "dispute_manager \<Rightarrow> string \<Rightarrow> dispute_case option" where
  "get_dispute m disputeId = map_of (disputes m) disputeId"

definition getByTransaction :: "dispute_manager \<Rightarrow> string \<Rightarrow> dispute_case option" where
  "getByTransaction m txId =
     (case map_of (byTransaction m) txId of
        None \<Rightarrow> None
      | Some disputeId \<Rightarrow> if disputeId = [] then None else map_of (disputes m) disputeId)"

definition getDisputesByAgent :: "dispute_manager \<Rightarrow> string \<Rightarrow> dispute_case list" where
  "getDisputesByAgent m agentId =
     (case map_of (disputesByAgent m) agentId of
        None \<Rightarrow> []
      | Some ids \<Rightarrow> List.map_filter (\<lambda>i. map_of (disputes m) i) ids)"

definition query :: "dispute_manager \<Rightarrow> dispute_filter \<Rightarrow> dispute_case list" where
  "query m dfilter =
     (let r0 = map snd (disputes m);
          r1 = (case f_status dfilter of None \<Rightarrow> r0
                | Some s \<Rightarrow> filter (\<lambda>d. d_status d = s) r0);
          r2 = (if truthy (f_agentId dfilter)
                then filter (\<lambda>d. Some (d_agentId d) = f_agentId dfilter) r1 else r1);
          r3 = (if truthy (f_transactionId dfilter)
                then filter (\<lambda>d. Some (d_transactionId d) = f_transactionId dfilter) r2 else r2);
          r4 = (case f_liability dfilter of None \<Rightarrow> r3
                | Some l \<Rightarrow> filter (\<lambda>d. d_liability d = l) r3);
          sorted = sort_key (\<lambda>d. - d_createdAt d) r4
      in case f_limit dfilter of
           None \<Rightarrow> sorted
         | Some l \<Rightarrow> if l = 0 then sorted else take l sorted)"

subsection \<open>A dispute scenario\<close>

definition dispute_input :: file_dispute_input where
  "dispute_input =
     \<lparr>in_transactionId = ''ps_1'', in_agentId = ''agent-1'',
      in_reason = ''Service not delivered after payment'', in_requestedAmount = 25,
      in_evidence = None\<rparr>"

definition filed_manager :: dispute_manager where
  "filed_manager = snd (file_dispute (new_manager None) dispute_input ''dsp_1'' 1000)"

definition denied_manager :: dispute_manager where
  "denied_manager = snd (resolve filed_manager ''dsp_1'' to_denied liable_agent None 2000)"

definition reopened_manager :: dispute_manager where
  "reopened_manager = snd (updateStatus denied_manager ''dsp_1'' investigating 3000)"

definition refiled_manager :: dispute_manager where
  "refiled_manager = snd (file_dispute denied_manager dispute_input ''dsp_2'' 4000)"

definition by_transaction :: "string \<Rightarrow> dispute_filter" where
  "by_transaction txId =
     \<lparr>f_status = None, f_agentId = None, f_transactionId = Some txId, f_liability = None,
      f_limit = None\<rparr>"

subsection \<open>Closed disputes\<close>

lemma get_after_update:
  "map_of (AList.update k v al) k' = (if k' = k then Some v else map_of al k')"
  by (simp add: update_conv')

text \<open>
  C2 (as amended). For a dispute in a closed status \<^verbatim>\<open>addEvidence\<close> raises the error
  of a closed dispute and leaves the manager, and with it the dispute, as it was. The
  status is not protected: \<^verbatim>\<open>updateStatus\<close> and \<^verbatim>\<open>resolve\<close> check only that the
  dispute exists, succeed on a closed dispute too, and set the status they are given.
\<close>

theorem closed_dispute_operations:
  assumes "map_of (disputes m) i = Some d"
    and "isClosed (d_status d)"
  shows "addEvidence m i ev now = (Inl (ClosedDispute i), m) \<and>
         updateStatus m i s now =
           (Inr (), m\<lparr>disputes := AList.update i (d\<lparr>d_status := s, d_updatedAt := now\<rparr>)
                                    (disputes m)\<rparr>) \<and>
         map_option d_status (get_dispute (snd (updateStatus m i s now)) i) = Some s \<and>
         map_option d_status (get_dispute (snd (resolve m i r l a now)) i) = Some (status_of r)"
  using assms
  by (simp add: addEvidence_def updateStatus_def resolve_def get_dispute_def get_after_update
      Let_def)

theorem closed_dispute_operations_witness:
  "addEvidence denied_manager ''dsp_1''
     \<lparr>ev_type = user_statement, ev_description = ''late'', ev_data = Opaque ''404'',
      ev_addedAt = 2500\<rparr> 2500 = (Inl (ClosedDispute ''dsp_1''), denied_manager)"
proof -
  obtain d where d: "map_of (disputes denied_manager) ''dsp_1'' = Some d"
    "d_status d = resolved_denied"
    by (simp add: denied_manager_def filed_manager_def file_dispute_def resolve_def
        new_manager_def active_dispute_def dispute_input_def Let_def status_of_def)
  then have "isClosed (d_status d)"
    by (simp add: isClosed_def)
  from closed_dispute_operations [OF d(1) this] show ?thesis
    by simp
qed

text \<open>
  C2 as stated fails in its second half: the dispute \<^verbatim>\<open>dsp_1\<close> is resolved as denied,
  which is a closed status, and a later \<^verbatim>\<open>updateStatus\<close> moves it to
  \<^verbatim>\<open>investigating\<close>.
\<close>

theorem closed_status_changes_counterexample:
  "map_option d_status (get_dispute denied_manager ''dsp_1'') = Some resolved_denied \<and>
   isClosed resolved_denied \<and>
   fst (updateStatus denied_manager ''dsp_1'' investigating 3000) = Inr () \<and>
   map_option d_status (get_dispute reopened_manager ''dsp_1'') = Some investigating"
  by (simp add: reopened_manager_def denied_manager_def filed_manager_def file_dispute_def
      resolve_def updateStatus_def new_manager_def active_dispute_def dispute_input_def
      get_dispute_def Let_def status_of_def isClosed_def)

subsection \<open>Filing again after a closed dispute\<close>

lemma index_ids_addToIndex_mono:
  "x \<in> index_ids index k \<Longrightarrow> x \<in> index_ids (addToIndex index key txId) k"
  by (auto simp: index_ids_addToIndex)

lemma map_filter_member:
  "x \<in> set xs \<Longrightarrow> f x = Some y \<Longrightarrow> y \<in> set (List.map_filter f xs)"
  by (force simp: List.map_filter_def)

lemma map_of_member: "map_of al k = Some v \<Longrightarrow> v \<in> snd ` set al"
  by (force dest: map_of_SomeD)

lemma update_keeps_other:
  assumes "map_of al k = Some v" "k \<noteq> k'"
  shows "v \<in> snd ` set (AList.update k' v' al)"
  using assms by (intro map_of_member [of _ k]) (simp add: update_conv')


lemma set_sort_key_eq: "set (sort_key f xs) = set xs"
  by simp

lemma file_dispute_after_closed:
  assumes bt: "map_of (byTransaction m) (in_transactionId input) = Some id1"
    and d1: "map_of (disputes m) id1 = Some d1"
    and closed: "isClosed (d_status d1)"
  shows "file_dispute m input newId now =
           (Inr \<lparr>d_id = newId, d_transactionId = in_transactionId input,
                  d_agentId = in_agentId input, d_reason = in_reason input,
                  d_status = status_open, d_liability = undetermined,
                  d_requestedAmount = in_requestedAmount input, d_resolvedAmount = None,
                  d_createdAt = now, d_updatedAt = now, d_resolvedAt = None,
                  d_evidence = d_evidence (projr (fst (file_dispute m input newId now)))\<rparr>,
            snd (file_dispute m input newId now))
         \<and> disputes (snd (file_dispute m input newId now)) =
             AList.update newId (projr (fst (file_dispute m input newId now))) (disputes m)
         \<and> byTransaction (snd (file_dispute m input newId now)) =
             AList.update (in_transactionId input) newId (byTransaction m)
         \<and> disputesByAgent (snd (file_dispute m input newId now)) =
             addToIndex (disputesByAgent m) (in_agentId input) newId"
proof -
  have "active_dispute m (in_transactionId input) = None"
    using bt d1 closed by (simp add: active_dispute_def)
  then show ?thesis
    by (simp add: file_dispute_def Let_def)
qed

text \<open>
  C10 (as amended). The index by transaction is a map, so it holds one dispute id per
  transaction. When the dispute it names for a transaction is closed, a new filing for
  that transaction (under a fresh, non-empty id) succeeds and overwrites the entry:
  \<^verbatim>\<open>getByTransaction\<close> then returns the new dispute and no longer the closed one. The
  closed dispute stays in the store unchanged and is still returned by \<^verbatim>\<open>get\<close> under
  its id, by \<^verbatim>\<open>query\<close> (here with the filter of its transaction), and also by
  \<^verbatim>\<open>getByAgent\<close> for its agent.
\<close>

theorem refile_after_closed:
  assumes bt: "map_of (byTransaction m) (in_transactionId input) = Some id1"
    and d1: "map_of (disputes m) id1 = Some d1"
    and closed: "isClosed (d_status d1)"
    and tx: "d_transactionId d1 = in_transactionId input"
    and txne: "in_transactionId input \<noteq> []"
    and idx: "id1 \<in> index_ids (disputesByAgent m) (d_agentId d1)"
    and fresh: "newId \<notin> fst ` set (disputes m)"
    and ne: "newId \<noteq> []"
  shows "\<exists>d2. file_dispute m input newId now = (Inr d2, snd (file_dispute m input newId now)) \<and>
           d_id d2 = newId \<and> d_status d2 = status_open \<and> d2 \<noteq> d1 \<and>
           map_of (byTransaction (snd (file_dispute m input newId now))) (in_transactionId input)
             = Some newId \<and>
           getByTransaction (snd (file_dispute m input newId now)) (in_transactionId input)
             = Some d2 \<and>
           get_dispute (snd (file_dispute m input newId now)) id1 = Some d1 \<and>
           d1 \<in> set (query (snd (file_dispute m input newId now))
                        (by_transaction (in_transactionId input))) \<and>
           d1 \<in> set (getDisputesByAgent (snd (file_dispute m input newId now)) (d_agentId d1))"
proof -
  let ?m' = "snd (file_dispute m input newId now)"
  let ?d2 = "projr (fst (file_dispute m input newId now))"
  note f = file_dispute_after_closed [OF bt d1 closed, of newId now]
  have res: "fst (file_dispute m input newId now) = Inr ?d2"
    using f by (metis fst_conv sum.sel(2))
  have whole: "file_dispute m input newId now = (Inr ?d2, ?m')"
    using res by (metis prod.collapse)
  have d2: "d_id ?d2 = newId" "d_status ?d2 = status_open"
    using f by (metis fst_conv sum.sel(2) dispute_case.select_convs(1),
                metis fst_conv sum.sel(2) dispute_case.select_convs(5))
  have ds: "disputes ?m' = AList.update newId ?d2 (disputes m)"
    and bts: "byTransaction ?m' = AList.update (in_transactionId input) newId (byTransaction m)"
    and ag: "disputesByAgent ?m' = addToIndex (disputesByAgent m) (in_agentId input) newId"
    using f by simp_all
  have "id1 \<in> fst ` set (disputes m)"
    using d1 by (force dest: map_of_SomeD)
  with fresh have neq: "id1 \<noteq> newId"
    by blast
  have differ: "?d2 \<noteq> d1"
    using d2(2) closed by (auto simp: isClosed_def)
  have old: "map_of (disputes ?m') id1 = Some d1"
    using d1 neq by (simp add: ds update_conv')
  have new: "map_of (disputes ?m') newId = Some ?d2"
    by (simp add: ds update_conv')
  have entry: "map_of (byTransaction ?m') (in_transactionId input) = Some newId"
    by (simp add: bts update_conv')
  have byTx: "getByTransaction ?m' (in_transactionId input) = Some ?d2"
    using entry new ne by (simp add: getByTransaction_def)
  have "d1 \<in> snd ` set (disputes ?m')"
    using old by (rule map_of_member)
  then have q: "d1 \<in> set (query ?m' (by_transaction (in_transactionId input)))"
    using tx txne by (simp add: query_def by_transaction_def truthy_def Let_def)
  have "id1 \<in> index_ids (disputesByAgent ?m') (d_agentId d1)"
    unfolding ag using idx by (rule index_ids_addToIndex_mono)
  then obtain ids where ids: "map_of (disputesByAgent ?m') (d_agentId d1) = Some ids"
    "id1 \<in> set ids"
    by (auto simp: index_ids_def split: option.splits)
  have a: "d1 \<in> set (getDisputesByAgent ?m' (d_agentId d1))"
    using ids old by (simp add: getDisputesByAgent_def map_filter_member)
  show ?thesis
    using whole d2 differ entry byTx old q a
    by (intro exI [of _ ?d2]) (simp add: get_dispute_def)
qed

theorem refile_after_closed_witness:
  "map_option d_id (getByTransaction refiled_manager ''ps_1'') = Some ''dsp_2'' \<and>
   map_option d_status (get_dispute refiled_manager ''dsp_1'') = Some resolved_denied \<and>
   ''dsp_1'' \<in> d_id ` set (query refiled_manager (by_transaction ''ps_1''))"
proof -
  define d1 where "d1 = the (map_of (disputes denied_manager) ''dsp_1'')"
  have dm: "disputes denied_manager = [(''dsp_1'', d1)]"
    "byTransaction denied_manager = [(''ps_1'', ''dsp_1'')]"
    "disputesByAgent denied_manager = [(''agent-1'', [''dsp_1''])]"
    by (simp_all add: d1_def denied_manager_def filed_manager_def file_dispute_def resolve_def
        new_manager_def active_dispute_def dispute_input_def Let_def addToIndex_def set_add_def)
  have d1v: "d_status d1 = resolved_denied" "d_transactionId d1 = ''ps_1''"
    "d_agentId d1 = ''agent-1''" "d_id d1 = ''dsp_1''"
    by (simp_all add: d1_def denied_manager_def filed_manager_def file_dispute_def resolve_def
        new_manager_def active_dispute_def dispute_input_def Let_def status_of_def)
  have h: "map_of (byTransaction denied_manager) (in_transactionId dispute_input) = Some ''dsp_1''"
    "map_of (disputes denied_manager) ''dsp_1'' = Some d1"
    "isClosed (d_status d1)"
    "d_transactionId d1 = in_transactionId dispute_input"
    "in_transactionId dispute_input \<noteq> []"
    "''dsp_1'' \<in> index_ids (disputesByAgent denied_manager) (d_agentId d1)"
    "''dsp_2'' \<notin> fst ` set (disputes denied_manager)"
    "''dsp_2'' \<noteq> []"
    by (simp_all add: dm d1v dispute_input_def isClosed_def index_ids_def)
  from refile_after_closed [OF h, of 4000]
  obtain d2 where r: "d_id d2 = ''dsp_2''"
    "getByTransaction refiled_manager ''ps_1'' = Some d2"
    "get_dispute refiled_manager ''dsp_1'' = Some d1"
    "d1 \<in> set (query refiled_manager (by_transaction ''ps_1''))"
    unfolding refiled_manager_def [symmetric] by (auto simp: dispute_input_def)
  from r(4) have "d_id d1 \<in> d_id ` set (query refiled_manager (by_transaction ''ps_1''))"
    by (rule imageI)
  with r show ?thesis
    by (simp add: d1v)
qed

text \<open>
  C10 as stated fails in its last part: after the second filing the closed dispute
  \<^verbatim>\<open>dsp_1\<close> is reached through \<^verbatim>\<open>getByAgent\<close> as well, not only through
  \<^verbatim>\<open>get\<close> and \<^verbatim>\<open>query\<close>.
\<close>

theorem refile_getByAgent_counterexample:
  "map_option d_id (getByTransaction refiled_manager ''ps_1'') = Some ''dsp_2'' \<and>
   map (\<lambda>d. (d_id d, d_status d)) (getDisputesByAgent refiled_manager ''agent-1'') =
     [(''dsp_1'', resolved_denied), (''dsp_2'', status_open)]"
  by (simp add: refiled_manager_def denied_manager_def filed_manager_def file_dispute_def
      resolve_def new_manager_def active_dispute_def dispute_input_def Let_def status_of_def
      isClosed_def getByTransaction_def getDisputesByAgent_def addToIndex_def set_add_def
      List.map_filter_def)

section \<open>Recovery Engine (packages/protect recovery.js)\<close>

text \<open>
  The refund executor is an external, possibly stateful and failing collaborator. It is
  modelled as a function of the number of executor calls made so far and of the action
  it is given, which returns the reply of that call: a result object or a thrown error.
  The engine is instrumented with the list of its events: the executor calls, each with
  the number of the attempt and whether the reply was a success, and the waits. \<^verbatim>\<open>maxRetries\<close> is an integer; a wait of \<^verbatim>\<open>ms\<close> milliseconds moves the clock by
  \<^verbatim>\<open>ms\<close>. One run of \<^verbatim>\<open>processQueue\<close> is modelled without other tasks running in
  between its steps.
\<close>

datatype recovery_type = full_refund | partial_refund | chargeback | credit

datatype recovery_status =
  recovery_pending | recovery_processing | recovery_completed | recovery_failed
  | recovery_cancelled

record recovery_action =
  ra_id :: string
  ra_disputeId :: string
  ra_transactionId :: string
  ra_agentId :: string
  ra_type :: recovery_type
  ra_amount :: rat
  ra_currency :: string
  ra_status :: recovery_status
  ra_createdAt :: int
  ra_updatedAt :: int
  ra_completedAt :: "int option"
  ra_refundTxId :: "string option"
  ra_error :: "string option"

datatype executor_reply =
    Returned bool "string option" "string option"
  | Threw string

datatype recovery_event = ExecutorCall nat bool | Wait int

record recovery_engine =
  actions :: "(string \<times> recovery_action) list"
  byDispute :: "(string \<times> string) list"
  queue :: "string list"
  maxRetries :: int
  retryDelayMs :: int
  executor :: "nat \<Rightarrow> recovery_action \<Rightarrow> executor_reply"
  calls :: nat
  clock :: int

datatype recovery_error =
    RecoveryDisputeNotFound string
  | NotRefundable string dispute_status
  | ActiveRecoveryExists string string
  | RecoveryNotFound string
  | NotPending string recovery_status

definition initiate ::
  "dispute_manager \<Rightarrow> recovery_engine \<Rightarrow> string \<Rightarrow> string \<Rightarrow>
   (recovery_error + recovery_action) \<times> recovery_engine" where
  "initiate dm eng disputeId newId =
     (case get_dispute dm disputeId of
        None \<Rightarrow> (Inl (RecoveryDisputeNotFound disputeId), eng)
      | Some d \<Rightarrow>
          if d_status d \<noteq> resolved_refunded \<and> d_status d \<noteq> resolved_partial
          then (Inl (NotRefundable disputeId (d_status d)), eng)
          else
            (case (case map_of (byDispute eng) disputeId of
                     None \<Rightarrow> None
                   | Some existingId \<Rightarrow>
                       if existingId = [] then None
                       else
                         (case map_of (actions eng) existingId of
                            None \<Rightarrow> None
                          | Some existing \<Rightarrow>
                              if ra_status existing \<noteq> recovery_failed \<and>
                                 ra_status existing \<noteq> recovery_cancelled
                              then Some existingId else None)) of
               Some existingId \<Rightarrow> (Inl (ActiveRecoveryExists existingId disputeId), eng)
             | None \<Rightarrow>
                 (let action =
                        \<lparr>ra_id = newId, ra_disputeId = disputeId,
                         ra_transactionId = d_transactionId d, ra_agentId = d_agentId d,
                         ra_type = (if d_status d = resolved_partial then partial_refund
                                    else full_refund),
                         ra_amount = (case d_resolvedAmount d of
                                        None \<Rightarrow> d_requestedAmount d | Some a \<Rightarrow> a),
                         ra_currency = ''USDC'', ra_status = recovery_pending,
                         ra_createdAt = clock eng, ra_updatedAt = clock eng,
                         ra_completedAt = None, ra_refundTxId = None, ra_error = None\<rparr>
                  in (Inr action,
                      eng\<lparr>actions := AList.update newId action (actions eng),
                          byDispute := AList.update disputeId newId (byDispute eng),
                          queue := queue eng @ [newId]\<rparr>))))"

definition cancel ::
  "recovery_engine \<Rightarrow> string \<Rightarrow> (recovery_error + recovery_action) \<times> recovery_engine" where
  "cancel eng recoveryId =
     (case map_of (actions eng) recoveryId of
        None \<Rightarrow> (Inl (RecoveryNotFound recoveryId), eng)
      | Some action \<Rightarrow>
          if ra_status action \<noteq> recovery_pending
          then (Inl (NotPending recoveryId (ra_status action)), eng)
          else
            (let action' = action\<lparr>ra_status := recovery_cancelled, ra_updatedAt := clock eng\<rparr>
             in (Inr action', eng\<lparr>actions := AList.update recoveryId action' (actions eng)\<rparr>)))"

text \<open>The state of the loop of \<^verbatim>\<open>executeWithRetry\<close>: the action, the number of
  executor calls made so far, the clock, and the events so far, latest last.\<close>

record retry_state =
  rt_action :: recovery_action
  rt_calls :: nat
  rt_clock :: int
  rt_events :: "recovery_event list"

text \<open>The steps of one attempt: the executor is called; a reply with a true
  \<^verbatim>\<open>success\<close> completes the action; any other reply or a thrown error leaves its
  message in \<^verbatim>\<open>action.error\<close>; the engine then waits, unless the attempt was the last
  one.\<close>

definition succeeds :: "executor_reply \<Rightarrow> bool" where
  "succeeds reply = (case reply of Returned ok _ _ \<Rightarrow> ok | Threw _ \<Rightarrow> False)"

definition refund_of :: "executor_reply \<Rightarrow> string option" where
  "refund_of reply = (case reply of Returned _ refundTxId _ \<Rightarrow> refundTxId | Threw _ \<Rightarrow> None)"

definition failure_message :: "executor_reply \<Rightarrow> string" where
  "failure_message reply =
     (case reply of
        Returned _ _ (Some e) \<Rightarrow> e
      | Returned _ _ None \<Rightarrow> ''Refund execution returned failure''
      | Threw e \<Rightarrow> e)"

definition call_made :: "retry_state \<Rightarrow> nat \<Rightarrow> bool \<Rightarrow> retry_state" where
  "call_made s attempt ok =
     s\<lparr>rt_calls := rt_calls s + 1, rt_events := rt_events s @ [ExecutorCall attempt ok]\<rparr>"

definition mark_completed :: "retry_state \<Rightarrow> string option \<Rightarrow> retry_state" where
  "mark_completed s refundTxId =
     s\<lparr>rt_action := (rt_action s)
          \<lparr>ra_status := recovery_completed, ra_refundTxId := refundTxId,
           ra_completedAt := Some (rt_clock s), ra_updatedAt := rt_clock s\<rparr>\<rparr>"

definition note_error :: "retry_state \<Rightarrow> string \<Rightarrow> retry_state" where
  "note_error s msg = s\<lparr>rt_action := (rt_action s)\<lparr>ra_error := Some msg\<rparr>\<rparr>"

definition wait_unless_last :: "int \<Rightarrow> int \<Rightarrow> nat \<Rightarrow> retry_state \<Rightarrow> retry_state" where
  "wait_unless_last maxR delay attempt s =
     (if int attempt < maxR
      then s\<lparr>rt_clock := rt_clock s + delay * int attempt,
              rt_events := rt_events s @ [Wait (delay * int attempt)]\<rparr>
      else s)"

definition mark_failed :: "retry_state \<Rightarrow> retry_state" where
  "mark_failed s =
     s\<lparr>rt_action := (rt_action s)\<lparr>ra_status := recovery_failed, ra_updatedAt := rt_clock s\<rparr>\<rparr>"

text \<open>The \<^verbatim>\<open>for\<close> loop from \<^verbatim>\<open>attempt\<close> on, and what follows the loop. The loop is
  left by \<^verbatim>\<open>return\<close> at the first successful reply.\<close>

function retry_loop ::
  "int \<Rightarrow> int \<Rightarrow> (nat \<Rightarrow> recovery_action \<Rightarrow> executor_reply) \<Rightarrow> nat \<Rightarrow> retry_state \<Rightarrow>
   retry_state" where
  "retry_loop maxR delay exec attempt s =
     (if int attempt \<le> maxR then
        (let reply = exec (rt_calls s) (rt_action s);
             s1 = call_made s attempt (succeeds reply)
         in if succeeds reply then mark_completed s1 (refund_of reply)
            else retry_loop maxR delay exec (attempt + 1)
                   (wait_unless_last maxR delay attempt (note_error s1 (failure_message reply))))
      else mark_failed s)"
  by pat_completeness auto
termination
  by (relation "measure (\<lambda>(maxR, delay, exec, attempt, s). nat (maxR + 1 - int attempt))") auto

declare retry_loop.simps [simp del]

definition executeWithRetry ::
  "recovery_engine \<Rightarrow> recovery_action \<Rightarrow> retry_state" where
  "executeWithRetry eng action =
     retry_loop (maxRetries eng) (retryDelayMs eng) (executor eng) 1
       \<lparr>rt_action = action\<lparr>ra_status := recovery_processing, ra_updatedAt := clock eng\<rparr>,
        rt_calls = calls eng, rt_clock = clock eng, rt_events = []\<rparr>"

text \<open>\<^verbatim>\<open>processQueue\<close> drains the queue from the front. It returns the list of the
  processed actions; the model adds to each of them the id taken from the queue and the
  events of its processing.\<close>

fun process_loop ::
  "recovery_engine \<Rightarrow> string list \<Rightarrow>
   (string \<times> recovery_action \<times> recovery_event list) list \<times> recovery_engine" where
  "process_loop eng [] = ([], eng\<lparr>queue := []\<rparr>)"
| "process_loop eng (actionId # rest) =
     (case map_of (actions eng) actionId of
        None \<Rightarrow> process_loop eng rest
      | Some action \<Rightarrow>
          if ra_status action = recovery_cancelled then process_loop eng rest
          else
            (let r = executeWithRetry eng action;
                 eng' = eng\<lparr>actions := AList.update actionId (rt_action r) (actions eng),
                            calls := rt_calls r, clock := rt_clock r\<rparr>;
                 (processed, eng'') = process_loop eng' rest
             in ((actionId, rt_action r, rt_events r) # processed, eng'')))"

definition processQueue ::
  "recovery_engine \<Rightarrow>
   (string \<times> recovery_action \<times> recovery_event list) list \<times> recovery_engine" where
  "processQueue eng = process_loop eng (queue eng)"

subsection \<open>Retries and waits\<close>

text \<open>What the specification says of the attempts \<open>a\<close> to \<open>n\<close> of one action: each is
  a call of the executor, followed by a wait of \<open>delay \<times> k\<close> after attempt \<open>k\<close> unless it
  is the last one; no attempt but the last can have succeeded.\<close>

definition span_trace :: "int \<Rightarrow> nat \<Rightarrow> nat \<Rightarrow> bool \<Rightarrow> recovery_event list" where
  "span_trace delay a n ok =
     concat (map (\<lambda>k. ExecutorCall k (k = n \<and> ok) #
                      (if k < n then [Wait (delay * int k)] else []))
               [a..<Suc n])"

definition attempts_trace :: "int \<Rightarrow> nat \<Rightarrow> bool \<Rightarrow> recovery_event list" where
  "attempts_trace delay n ok = span_trace delay 1 n ok"

definition is_call :: "recovery_event \<Rightarrow> bool" where
  "is_call e = (case e of ExecutorCall _ _ \<Rightarrow> True | Wait _ \<Rightarrow> False)"

definition is_success :: "recovery_event \<Rightarrow> bool" where
  "is_success e = (case e of ExecutorCall _ ok \<Rightarrow> ok | Wait _ \<Rightarrow> False)"

definition executor_calls :: "recovery_event list \<Rightarrow> nat" where
  "executor_calls evs = length (filter is_call evs)"

lemma span_trace_empty: "n < a \<Longrightarrow> span_trace delay a n ok = []"
  by (simp add: span_trace_def)

lemma span_trace_Cons:
  "a \<le> n \<Longrightarrow>
   span_trace delay a n ok =
     (ExecutorCall a (a = n \<and> ok) # (if a < n then [Wait (delay * int a)] else [])) @
     span_trace delay (Suc a) n ok"
  by (simp add: span_trace_def upt_conv_Cons)

lemma executor_calls_span: "executor_calls (span_trace delay a n ok) = Suc n - a"
proof (induction "Suc n - a" arbitrary: a)
  case 0
  then show ?case by (simp add: span_trace_empty executor_calls_def)
next
  case (Suc d)
  then have le: "a \<le> n" by simp
  from Suc have "d = Suc n - Suc a" by simp
  then have "executor_calls (span_trace delay (Suc a) n ok) = Suc n - Suc a"
    by (rule Suc.hyps(1))
  with le show ?case
    by (simp add: span_trace_Cons executor_calls_def is_call_def)
qed

lemma retry_loop_stop:
  "\<not> int a \<le> maxR \<Longrightarrow> retry_loop maxR delay exec a s = mark_failed s"
  by (subst retry_loop.simps) simp

lemma retry_loop_success:
  "int a \<le> maxR \<Longrightarrow> succeeds (exec (rt_calls s) (rt_action s)) \<Longrightarrow>
   retry_loop maxR delay exec a s =
     mark_completed (call_made s a True) (refund_of (exec (rt_calls s) (rt_action s)))"
  by (subst retry_loop.simps) (simp add: Let_def)

lemma retry_loop_failure:
  "int a \<le> maxR \<Longrightarrow> \<not> succeeds (exec (rt_calls s) (rt_action s)) \<Longrightarrow>
   retry_loop maxR delay exec a s =
     retry_loop maxR delay exec (a + 1)
       (wait_unless_last maxR delay a
          (note_error (call_made s a False)
             (failure_message (exec (rt_calls s) (rt_action s)))))"
  by (subst retry_loop.simps) (simp add: Let_def)

lemma step_calls [simp]:
  "rt_calls (call_made s a ok) = rt_calls s + 1"
  "rt_calls (note_error s msg) = rt_calls s"
  "rt_calls (wait_unless_last maxR delay a s) = rt_calls s"
  "rt_calls (mark_completed s t) = rt_calls s"
  "rt_calls (mark_failed s) = rt_calls s"
  by (simp_all add: call_made_def note_error_def wait_unless_last_def mark_completed_def
      mark_failed_def)

lemma step_events [simp]:
  "rt_events (call_made s a ok) = rt_events s @ [ExecutorCall a ok]"
  "rt_events (note_error s msg) = rt_events s"
  "rt_events (wait_unless_last maxR delay a s) =
     rt_events s @ (if int a < maxR then [Wait (delay * int a)] else [])"
  "rt_events (mark_completed s t) = rt_events s"
  "rt_events (mark_failed s) = rt_events s"
  by (simp_all add: call_made_def note_error_def wait_unless_last_def mark_completed_def
      mark_failed_def)

lemma step_status [simp]:
  "ra_status (rt_action (mark_completed s t)) = recovery_completed"
  "ra_status (rt_action (mark_failed s)) = recovery_failed"
  by (simp_all add: mark_completed_def mark_failed_def)

text \<open>The loop from attempt \<open>a\<close> on makes \<open>c\<close> calls, at most as many as there are
  attempts left; its events are those of the attempts \<open>a\<close> to \<open>a + c - 1\<close>; and it ends
  completed with a successful last call, or failed after all attempts.\<close>

lemma retry_loop_trace:
  assumes "1 \<le> a"
  shows "\<exists>c. rt_calls (retry_loop maxR delay exec a s) = rt_calls s + c \<and>
             int c \<le> max 0 (maxR + 1 - int a) \<and>
             (int a \<le> maxR \<longrightarrow> 1 \<le> c) \<and>
             rt_events (retry_loop maxR delay exec a s) =
               rt_events s @
               span_trace delay a (a + c - 1)
                 (ra_status (rt_action (retry_loop maxR delay exec a s)) = recovery_completed) \<and>
             (ra_status (rt_action (retry_loop maxR delay exec a s)) = recovery_completed \<and>
              1 \<le> c \<or>
              ra_status (rt_action (retry_loop maxR delay exec a s)) = recovery_failed \<and>
              int c = max 0 (maxR + 1 - int a))"
  using assms
proof (induction maxR delay exec a s rule: retry_loop.induct)
  case (1 maxR delay exec a s)
  show ?case
  proof (cases "int a \<le> maxR")
    case False
    with 1(2) show ?thesis
      by (intro exI [of _ 0]) (simp add: retry_loop_stop span_trace_empty)
  next
    case le: True
    show ?thesis
    proof (cases "succeeds (exec (rt_calls s) (rt_action s))")
      case True
      with le 1(2) show ?thesis
        by (intro exI [of _ 1]) (auto simp: retry_loop_success span_trace_Cons span_trace_empty)
    next
      case False
      let ?s' = "wait_unless_last maxR delay a
          (note_error (call_made s a False)
             (failure_message (exec (rt_calls s) (rt_action s))))"
      let ?r = "retry_loop maxR delay exec (a + 1) ?s'"
      let ?ok = "ra_status (rt_action ?r) = recovery_completed"
      have eq: "retry_loop maxR delay exec a s = ?r"
        using le False by (rule retry_loop_failure)
      from 1(1) [OF le refl refl] False
      obtain c where c: "rt_calls ?r = rt_calls ?s' + c"
        "int c \<le> max 0 (maxR + 1 - int (a + 1))"
        "int (a + 1) \<le> maxR \<longrightarrow> 1 \<le> c"
        "rt_events ?r = rt_events ?s' @ span_trace delay (a + 1) (a + 1 + c - 1) ?ok"
        "?ok \<and> 1 \<le> c \<or>
         ra_status (rt_action ?r) = recovery_failed \<and> int c = max 0 (maxR + 1 - int (a + 1))"
        by auto
      have w: "(a < a + c) = (int a < maxR)"
        using c(2,3) le by auto
      have last: "(a = a + c \<and> ?ok) = False"
        using c(5) by auto
      have sp: "span_trace delay a (a + Suc c - 1) ?ok =
          (ExecutorCall a False # (if int a < maxR then [Wait (delay * int a)] else [])) @
          span_trace delay (a + 1) (a + 1 + c - 1) ?ok"
        using span_trace_Cons [of a "a + c" delay ?ok] w last by simp
      show ?thesis
        unfolding eq using c le sp
        by (intro exI [of _ "Suc c"]) auto
    qed
  qed
qed

lemma span_trace_success:
  "a \<le> n \<Longrightarrow> ExecutorCall n True \<in> set (span_trace delay a n True)"
  by (auto simp: span_trace_def)

definition within_retries ::
  "int \<Rightarrow> int \<Rightarrow> recovery_action \<Rightarrow> recovery_event list \<Rightarrow> bool" where
  "within_retries maxR delay a evs \<longleftrightarrow>
     executor_calls evs \<le> nat maxR \<and>
     evs = attempts_trace delay (executor_calls evs) (ra_status a = recovery_completed) \<and>
     (ra_status a = recovery_completed \<and> 1 \<le> executor_calls evs \<or>
      ra_status a = recovery_failed \<and> executor_calls evs = nat maxR)"

lemma executeWithRetry_within:
  "within_retries (maxRetries eng) (retryDelayMs eng)
     (rt_action (executeWithRetry eng action)) (rt_events (executeWithRetry eng action))"
proof -
  let ?s = "\<lparr>rt_action = action\<lparr>ra_status := recovery_processing, ra_updatedAt := clock eng\<rparr>,
        rt_calls = calls eng, rt_clock = clock eng, rt_events = []\<rparr>"
  let ?r = "retry_loop (maxRetries eng) (retryDelayMs eng) (executor eng) 1 ?s"
  let ?ok = "ra_status (rt_action ?r) = recovery_completed"
  from retry_loop_trace [of 1 "maxRetries eng" "retryDelayMs eng" "executor eng" ?s]
  obtain c where c: "int c \<le> max 0 (maxRetries eng + 1 - int 1)"
    "rt_events ?r = rt_events ?s @ span_trace (retryDelayMs eng) 1 (1 + c - 1) ?ok"
    "?ok \<and> 1 \<le> c \<or>
     ra_status (rt_action ?r) = recovery_failed \<and> int c = max 0 (maxRetries eng + 1 - int 1)"
    by auto
  have b: "c \<le> nat (maxRetries eng)"
    using c(1) by simp
  have m: "int c = max 0 (maxRetries eng + 1 - int 1) \<Longrightarrow> c = nat (maxRetries eng)"
    by simp
  have e: "rt_events ?r = attempts_trace (retryDelayMs eng) c ?ok"
    using c(2) by (simp add: attempts_trace_def)
  have n: "executor_calls (rt_events ?r) = c"
    unfolding e by (simp add: attempts_trace_def executor_calls_span)
  show ?thesis
    unfolding within_retries_def executeWithRetry_def n using b m c(3) e by auto
qed

lemma within_retries_no_success:
  assumes "within_retries maxR delay a evs" "\<forall>e \<in> set evs. \<not> is_success e"
  shows "ra_status a = recovery_failed"
proof (rule ccontr)
  assume "ra_status a \<noteq> recovery_failed"
  with assms(1) have ok: "ra_status a = recovery_completed" "1 \<le> executor_calls evs"
    and evs: "evs = attempts_trace delay (executor_calls evs) True"
    by (auto simp: within_retries_def)
  have "ExecutorCall (executor_calls evs) True \<in> set (attempts_trace delay (executor_calls evs) True)"
    unfolding attempts_trace_def using ok(2) by (rule span_trace_success)
  with evs have "ExecutorCall (executor_calls evs) True \<in> set evs"
    by simp
  with assms(2) show False
    by (auto simp: is_success_def)
qed

lemma process_loop_within:
  assumes "maxRetries eng = maxR" "retryDelayMs eng = delay"
  shows "\<forall>(i, a, evs) \<in> set (fst (process_loop eng q)). within_retries maxR delay a evs"
  using assms
proof (induction q arbitrary: eng)
  case Nil
  then show ?case by simp
next
  case (Cons i q)
  show ?case
  proof (cases "map_of (actions eng) i")
    case None
    with Cons show ?thesis by simp
  next
    case (Some action)
    show ?thesis
    proof (cases "ra_status action = recovery_cancelled")
      case True
      with Some Cons show ?thesis by simp
    next
      case False
      let ?r = "executeWithRetry eng action"
      let ?eng' = "eng\<lparr>actions := AList.update i (rt_action ?r) (actions eng),
                            calls := rt_calls ?r, clock := rt_clock ?r\<rparr>"
      have h: "within_retries maxR delay (rt_action ?r) (rt_events ?r)"
        using executeWithRetry_within [of eng action] Cons.prems by simp
      have t: "\<forall>(i, a, evs) \<in> set (fst (process_loop ?eng' q)). within_retries maxR delay a evs"
        using Cons.prems by (intro Cons.IH) simp_all
      have "fst (process_loop eng (i # q)) =
              (i, rt_action ?r, rt_events ?r) # fst (process_loop ?eng' q)"
        using Some False by (simp add: Let_def split: prod.split)
      with h t show ?thesis by simp
    qed
  qed
qed

lemma process_loop_ids: "fst ` set (fst (process_loop eng q)) \<subseteq> set q"
proof (induction q arbitrary: eng)
  case Nil
  then show ?case by simp
next
  case (Cons i q)
  show ?case
  proof (cases "map_of (actions eng) i")
    case None
    with Cons [of eng] show ?thesis by auto
  next
    case (Some action)
    show ?thesis
    proof (cases "ra_status action = recovery_cancelled")
      case True
      with Some Cons [of eng] show ?thesis by auto
    next
      case False
      let ?r = "executeWithRetry eng action"
      let ?eng' = "eng\<lparr>actions := AList.update i (rt_action ?r) (actions eng),
                            calls := rt_calls ?r, clock := rt_clock ?r\<rparr>"
      have "fst (process_loop eng (i # q)) =
              (i, rt_action ?r, rt_events ?r) # fst (process_loop ?eng' q)"
        using Some False by (simp add: Let_def split: prod.split)
      with Cons [of ?eng'] show ?thesis by auto
    qed
  qed
qed

lemma process_loop_distinct:
  "distinct q \<Longrightarrow> distinct (map fst (fst (process_loop eng q)))"
proof (induction q arbitrary: eng)
  case Nil
  then show ?case by simp
next
  case (Cons i q)
  show ?case
  proof (cases "map_of (actions eng) i")
    case None
    with Cons.prems Cons.IH [of eng] show ?thesis by simp
  next
    case (Some action)
    show ?thesis
    proof (cases "ra_status action = recovery_cancelled")
      case True
      with Some Cons.prems Cons.IH [of eng] show ?thesis by simp
    next
      case False
      let ?r = "executeWithRetry eng action"
      let ?eng' = "eng\<lparr>actions := AList.update i (rt_action ?r) (actions eng),
                            calls := rt_calls ?r, clock := rt_clock ?r\<rparr>"
      have e: "fst (process_loop eng (i # q)) =
              (i, rt_action ?r, rt_events ?r) # fst (process_loop ?eng' q)"
        using Some False by (simp add: Let_def split: prod.split)
      have "i \<notin> fst ` set (fst (process_loop ?eng' q))"
        using process_loop_ids [of ?eng' q] Cons.prems by auto
      with Cons.prems Cons.IH [of ?eng'] show ?thesis
        unfolding e by simp
    qed
  qed
qed

subsection \<open>A recovery scenario\<close>

definition refund_action :: recovery_action where
  "refund_action =
     \<lparr>ra_id = ''rcv_1'', ra_disputeId = ''dsp_1'', ra_transactionId = ''ps_1'',
      ra_agentId = ''agent-1'', ra_type = full_refund, ra_amount = 25, ra_currency = ''USDC'',
      ra_status = recovery_pending, ra_createdAt = 0, ra_updatedAt = 0, ra_completedAt = None,
      ra_refundTxId = None, ra_error = None\<rparr>"

text \<open>An engine with the default three attempts and 5000 ms delay, one action in its
  queue, and an executor that throws on every call.\<close>

definition failing_engine :: recovery_engine where
  "failing_engine =
     \<lparr>actions = [(''rcv_1'', refund_action)], byDispute = [(''dsp_1'', ''rcv_1'')],
      queue = [''rcv_1''], maxRetries = 3, retryDelayMs = 5000,
      executor = (\<lambda>k a. Threw ''network down''), calls = 0, clock = 0\<rparr>"

text \<open>The same engine with an executor that fails once and then succeeds.\<close>

definition flaky_engine :: recovery_engine where
  "flaky_engine =
     failing_engine\<lparr>executor :=
       (\<lambda>k a. if k < 1 then Returned False None None
              else Returned True (Some ''0xrefund'') None)\<rparr>"

text \<open>
  C8. In one run of \<^verbatim>\<open>processQueue\<close>, for every processed action: the executor is
  called at most \<^verbatim>\<open>maxRetries\<close> times; the events of the processing are exactly the
  calls of the attempts 1 to \<open>n\<close>, with a wait of \<^verbatim>\<open>retryDelayMs\<close> \<open>\<times> k\<close> after attempt
  \<open>k\<close> for every \<open>k < n\<close> and no wait after attempt \<open>n\<close>, where only the last call can
  have succeeded; the action ends completed, or failed after \<^verbatim>\<open>maxRetries\<close> calls; and
  it ends failed if no call returned success. The processed actions are taken from the
  queue, each id of a queue without duplicates at most once.
\<close>

theorem processQueue_retries:
  "(\<forall>(i, a, evs) \<in> set (fst (processQueue eng)).
       executor_calls evs \<le> nat (maxRetries eng) \<and>
       evs = attempts_trace (retryDelayMs eng) (executor_calls evs)
               (ra_status a = recovery_completed) \<and>
       (ra_status a = recovery_completed \<and> 1 \<le> executor_calls evs \<or>
        ra_status a = recovery_failed \<and> executor_calls evs = nat (maxRetries eng)) \<and>
       ((\<forall>e \<in> set evs. \<not> is_success e) \<longrightarrow> ra_status a = recovery_failed))
   \<and> fst ` set (fst (processQueue eng)) \<subseteq> set (queue eng)
   \<and> (distinct (queue eng) \<longrightarrow> distinct (map fst (fst (processQueue eng))))"
proof -
  have w: "\<forall>(i, a, evs) \<in> set (fst (processQueue eng)).
             within_retries (maxRetries eng) (retryDelayMs eng) a evs"
    unfolding processQueue_def by (rule process_loop_within) simp_all
  have "\<forall>(i, a, evs) \<in> set (fst (processQueue eng)).
       executor_calls evs \<le> nat (maxRetries eng) \<and>
       evs = attempts_trace (retryDelayMs eng) (executor_calls evs)
               (ra_status a = recovery_completed) \<and>
       (ra_status a = recovery_completed \<and> 1 \<le> executor_calls evs \<or>
        ra_status a = recovery_failed \<and> executor_calls evs = nat (maxRetries eng)) \<and>
       ((\<forall>e \<in> set evs. \<not> is_success e) \<longrightarrow> ra_status a = recovery_failed)"
  proof (clarify, intro conjI impI)
    fix i a evs
    assume "(i, a, evs) \<in> set (fst (processQueue eng))"
    with w have h: "within_retries (maxRetries eng) (retryDelayMs eng) a evs"
      by auto
    then show "executor_calls evs \<le> nat (maxRetries eng)"
      and "evs = attempts_trace (retryDelayMs eng) (executor_calls evs)
                   (ra_status a = recovery_completed)"
      and "ra_status a = recovery_completed \<and> 1 \<le> executor_calls evs \<or>
           ra_status a = recovery_failed \<and> executor_calls evs = nat (maxRetries eng)"
      by (simp_all add: within_retries_def)
    show "ra_status a = recovery_failed" if "\<forall>e \<in> set evs. \<not> is_success e"
      using h that by (rule within_retries_no_success)
  qed
  then show ?thesis
    using process_loop_ids [of eng "queue eng"] process_loop_distinct [of "queue eng" eng]
    by (simp add: processQueue_def)
qed

theorem processQueue_retries_witness:
  "map (\<lambda>(i, a, evs). (i, ra_status a, evs)) (fst (processQueue failing_engine)) =
     [(''rcv_1'', recovery_failed,
       [ExecutorCall 1 False, Wait 5000, ExecutorCall 2 False, Wait 10000,
        ExecutorCall 3 False])] \<and>
   map (\<lambda>(i, a, evs). (i, ra_status a, evs)) (fst (processQueue flaky_engine)) =
     [(''rcv_1'', recovery_completed, [ExecutorCall 1 False, Wait 5000, ExecutorCall 2 True])]"
proof -
  have f: "map (\<lambda>(i, a, evs). (i, evs)) (fst (processQueue failing_engine)) =
     [(''rcv_1'', [ExecutorCall 1 False, Wait 5000, ExecutorCall 2 False, Wait 10000,
        ExecutorCall 3 False])]"
    by code_simp
  then obtain a where a: "fst (processQueue failing_engine) =
     [(''rcv_1'', a, [ExecutorCall 1 False, Wait 5000, ExecutorCall 2 False, Wait 10000,
        ExecutorCall 3 False])]"
    by (cases "fst (processQueue failing_engine)") auto
  have "\<forall>e \<in> set [ExecutorCall 1 False, Wait 5000, ExecutorCall 2 False, Wait 10000,
        ExecutorCall 3 False]. \<not> is_success e"
    by (simp add: is_success_def)
  with processQueue_retries [of failing_engine] a have "ra_status a = recovery_failed"
    by simp
  with a have 1: "map (\<lambda>(i, a, evs). (i, ra_status a, evs)) (fst (processQueue failing_engine)) =
     [(''rcv_1'', recovery_failed,
       [ExecutorCall 1 False, Wait 5000, ExecutorCall 2 False, Wait 10000,
        ExecutorCall 3 False])]"
    by simp
  have 2: "map (\<lambda>(i, a, evs). (i, ra_status a, evs)) (fst (processQueue flaky_engine)) =
     [(''rcv_1'', recovery_completed, [ExecutorCall 1 False, Wait 5000, ExecutorCall 2 True])]"
    by code_simp
  from 1 2 show ?thesis by simp
qed

end
